theory Spec2Isabelle
  imports Complex_Main "HOL-Library.AList"
begin

section \<open>Data model of index.js\<close>

text \<open>
  Instants. The program stores instants as ISO-8601 strings in UTC and turns them into
  luxon \<open>DateTime\<close> values (\<open>isoToDT\<close>) or epoch milliseconds (\<open>toMillis\<close>) where it
  computes. The embedding identifies a well-formed ISO string with its epoch millisecond
  value, an \<^typ>\<open>int\<close>; the JavaScript \<open>null\<close> is \<^term>\<open>None\<close>. Every instant the
  program itself writes is a non-empty string (\<open>toISOString\<close>, \<open>toISO\<close>), so \<open>Some t\<close> is
  truthy and \<open>None\<close> is falsy in the truthiness tests of the source.
\<close>

type_synonym instant = int

text \<open>A session \<open>{ start: ISO, end: ISO|null }\<close>.\<close>

record session =
  s_start :: instant
  s_end :: "instant option"

text \<open>One entry of \<open>state.players\<close>.\<close>

record player =
  p_name :: string
  p_url :: string
  lastMatchId :: "string option"
  lastMatchAt :: "instant option"
  sessions :: "session list"

text \<open>\<open>state.latestMatch\<close>: \<open>{ player, matchId, at }\<close>.\<close>

record latest =
  lm_player :: string
  lm_matchId :: string
  lm_at :: instant

text \<open>
  The global \<open>state\<close>. \<open>state.players\<close> is a JavaScript object keyed by player name; its
  iteration order (\<open>Object.values\<close>) is the insertion order of the keys, so it is an
  association list here.
\<close>

record state =
  players :: "(string \<times> player) list"
  latestMatch :: "latest option"
  createdAt :: instant

text \<open>An entry of the configured roster \<open>PLAYERS\<close>.\<close>

record roster_entry =
  r_name :: string
  r_url :: string

definition PLAYERS :: "roster_entry list" where
  "PLAYERS =
    [\<lparr>r_name = ''Zumito Kun'', r_url = ''https://fortnitetracker.com/profile/all/Zumito%20Kun/matches''\<rparr>,
     \<lparr>r_name = ''Lulau22'', r_url = ''https://fortnitetracker.com/profile/all/Lulau22/matches''\<rparr>,
     \<lparr>r_name = ''Antocar69 TTV'', r_url = ''https://fortnitetracker.com/profile/all/Antocar69%20TTV/matches''\<rparr>,
     \<lparr>r_name = ''Cronoxis'', r_url = ''https://fortnitetracker.com/profile/all/Cronoxis/matches''\<rparr>]"

definition INACTIVITY_MINUTES :: rat where
  "INACTIVITY_MINUTES = 30"

text \<open>What \<open>scrapeLatestMatch\<close> returns when it succeeds: \<open>{ matchId, atISO }\<close>.\<close>

record info =
  matchId :: string
  atISO :: instant

datatype error = TypeError

section \<open>State and persistence\<close>

definition default_player :: "roster_entry \<Rightarrow> player" where
  "default_player r =
     \<lparr>p_name = r_name r, p_url = r_url r, lastMatchId = None, lastMatchAt = None, sessions = []\<rparr>"

text \<open>
  \<open>defaultState\<close>: one fresh entry per roster player, in roster order (a repeated roster
  name overwrites in place, as the object assignment does). The argument is the clock
  reading of \<open>new Date()\<close>.
\<close>

definition defaultState :: "instant \<Rightarrow> state" where
  "defaultState now =
     \<lparr>players = foldl (\<lambda>ps r. AList.update (r_name r) (default_player r) ps) [] PLAYERS,
      latestMatch = None,
      createdAt = now\<rparr>"

section \<open>Time utilities\<close>

text \<open>
  \<open>minutesBetween\<close>: the absolute difference of two instants in minutes, \<open>null\<close> when
  either is missing. luxon divides the millisecond difference by 60000; the quotient is
  kept exact as a rational.
\<close>

definition minutesBetween :: "instant option \<Rightarrow> instant option \<Rightarrow> rat option" where
  "minutesBetween aISO bISO =
     (case aISO of None \<Rightarrow> None
      | Some a \<Rightarrow> (case bISO of None \<Rightarrow> None
          | Some b \<Rightarrow> Some \<bar>of_int (b - a) / 60000\<bar>))"

section \<open>Session logic\<close>

text \<open>
  \<open>ensureSessionOnNewMatch\<close>, on the player entry it mutates: a session is pushed when
  there is no last session or the last one has an end.
\<close>

definition has_open_session :: "session list \<Rightarrow> bool" where
  "has_open_session ss = (ss \<noteq> [] \<and> s_end (last ss) = None)"

definition ensureSessionOnNewMatch :: "instant \<Rightarrow> player \<Rightarrow> player" where
  "ensureSessionOnNewMatch matchAtISO p =
     (if \<not> has_open_session (sessions p)
      then p\<lparr>sessions := sessions p @ [\<lparr>s_start = matchAtISO, s_end = None\<rparr>]\<rparr>
      else p)"

text \<open>Assigning \<open>last.end\<close>: the last element of the array is updated in place.\<close>

definition set_last_end :: "instant \<Rightarrow> session list \<Rightarrow> session list" where
  "set_last_end e ss = butlast ss @ [(last ss)\<lparr>s_end := Some e\<rparr>]"

text \<open>The body of the loop of \<open>closeInactiveSessions\<close>, for one player.\<close>

definition close_inactive :: "instant \<Rightarrow> player \<Rightarrow> player" where
  "close_inactive nowIso p =
     (if \<not> has_open_session (sessions p) then p
      else (case lastMatchAt p of
          None \<Rightarrow> p\<lparr>sessions := set_last_end nowIso (sessions p)\<rparr>
        | Some lastAt \<Rightarrow>
            (case minutesBetween (Some lastAt) (Some nowIso) of
               None \<Rightarrow> p
             | Some mins \<Rightarrow>
                 if mins > INACTIVITY_MINUTES
                 then p\<lparr>sessions := set_last_end lastAt (sessions p)\<rparr>
                 else p)))"

definition closeInactiveSessions :: "instant \<Rightarrow> state \<Rightarrow> state" where
  "closeInactiveSessions nowIso st =
     st\<lparr>players := map (\<lambda>(k, p). (k, close_inactive nowIso p)) (players st)\<rparr>"

definition isPlayingNow :: "instant \<Rightarrow> player \<Rightarrow> bool" where
  "isPlayingNow now p =
     (case lastMatchAt p of
        None \<Rightarrow> False
      | Some lastAt \<Rightarrow>
          (case minutesBetween (Some lastAt) (Some now) of
             None \<Rightarrow> False
           | Some mins \<Rightarrow> mins \<le> INACTIVITY_MINUTES))"

section \<open>The scraping cycle\<close>

text \<open>
  The body of the loop of \<open>scanAll\<close> for the roster player \<open>nm\<close>, given what
  \<open>scrapeLatestMatch\<close> returned. Reading \<open>state.players[nm].lastMatchId\<close> of an entry that
  does not exist throws before anything is written.
\<close>

definition scan_player :: "string \<Rightarrow> info option \<Rightarrow> state \<Rightarrow> error + state" where
  "scan_player nm scraped st =
     (case scraped of
        None \<Rightarrow> Inr st
      | Some i \<Rightarrow>
          (case map_of (players st) nm of
             None \<Rightarrow> Inl TypeError
           | Some p \<Rightarrow>
               if Some (matchId i) \<noteq> lastMatchId p
               then Inr (st\<lparr>players :=
                            AList.map_entry nm
                              (\<lambda>q. ensureSessionOnNewMatch (atISO i)
                                     (q\<lparr>lastMatchId := Some (matchId i), lastMatchAt := Some (atISO i)\<rparr>))
                              (players st),
                          latestMatch := Some \<lparr>lm_player = nm, lm_matchId = matchId i, lm_at = atISO i\<rparr>\<rparr>)
               else Inr st))"

section \<open>Persistence\<close>

text \<open>
  A JSON value. \<open>saveState\<close> writes the text \<open>JSON.stringify\<close> makes of \<open>state\<close> and
  \<open>loadState\<close> hands the text to \<open>JSON.parse\<close>; both belong to the runtime, and the text
  of a file is identified with the value it denotes. A string leaf that holds an instant
  is \<open>JIso\<close>, by the identification of ISO strings with instants made above.
\<close>

datatype json =
    JNull
  | JString string
  | JIso instant
  | JArray "json list"
  | JObject "(string \<times> json) list"

text \<open>
  What \<open>JSON.stringify\<close> makes of the state: every object with its own properties in the
  order the program created them.
\<close>

definition session_json :: "session \<Rightarrow> json" where
  "session_json s =
     JObject [(''start'', JIso (s_start s)),
              (''end'', case s_end s of None \<Rightarrow> JNull | Some e \<Rightarrow> JIso e)]"

definition player_json :: "player \<Rightarrow> json" where
  "player_json p =
     JObject [(''name'', JString (p_name p)),
              (''url'', JString (p_url p)),
              (''lastMatchId'', case lastMatchId p of None \<Rightarrow> JNull | Some m \<Rightarrow> JString m),
              (''lastMatchAt'', case lastMatchAt p of None \<Rightarrow> JNull | Some t \<Rightarrow> JIso t),
              (''sessions'', JArray (map session_json (sessions p)))]"

definition latest_json :: "latest \<Rightarrow> json" where
  "latest_json l =
     JObject [(''player'', JString (lm_player l)),
              (''matchId'', JString (lm_matchId l)),
              (''at'', JIso (lm_at l))]"

definition state_json :: "state \<Rightarrow> json" where
  "state_json st =
     JObject [(''players'', JObject (map (\<lambda>(k, p). (k, player_json p)) (players st))),
              (''latestMatch'', case latestMatch st of None \<Rightarrow> JNull | Some l \<Rightarrow> latest_json l),
              (''createdAt'', JIso (createdAt st))]"

text \<open>
  Reading the parsed value as the program does, by property name. The result is
  \<^term>\<open>None\<close> when the value is not an object with a \<open>players\<close> object (the roster loop
  of \<open>loadState\<close> then throws a \<open>TypeError\<close>, which is caught) and also when it is not of
  the shape the program writes, which the record types of the embedding cannot hold.
\<close>

fun field :: "string \<Rightarrow> json \<Rightarrow> json option" where
  "field k (JObject kvs) = map_of kvs k"
| "field k v = None"

fun as_string :: "json \<Rightarrow> string option" where
  "as_string (JString s) = Some s"
| "as_string v = None"

fun as_iso :: "json \<Rightarrow> instant option" where
  "as_iso (JIso t) = Some t"
| "as_iso v = None"

fun nullable :: "(json \<Rightarrow> 'a option) \<Rightarrow> json \<Rightarrow> 'a option option" where
  "nullable f JNull = Some None"
| "nullable f v = map_option Some (f v)"

definition json_session :: "json \<Rightarrow> session option" where
  "json_session v =
     Option.bind (Option.bind (field ''start'' v) as_iso) (\<lambda>a.
     Option.bind (Option.bind (field ''end'' v) (nullable as_iso)) (\<lambda>b.
     Some \<lparr>s_start = a, s_end = b\<rparr>))"

fun json_sessions :: "json \<Rightarrow> session list option" where
  "json_sessions (JArray vs) = those (map json_session vs)"
| "json_sessions v = None"

definition json_player :: "json \<Rightarrow> player option" where
  "json_player v =
     Option.bind (Option.bind (field ''name'' v) as_string) (\<lambda>a.
     Option.bind (Option.bind (field ''url'' v) as_string) (\<lambda>b.
     Option.bind (Option.bind (field ''lastMatchId'' v) (nullable as_string)) (\<lambda>c.
     Option.bind (Option.bind (field ''lastMatchAt'' v) (nullable as_iso)) (\<lambda>d.
     Option.bind (Option.bind (field ''sessions'' v) json_sessions) (\<lambda>e.
     Some \<lparr>p_name = a, p_url = b, lastMatchId = c, lastMatchAt = d, sessions = e\<rparr>)))))"

fun json_players :: "json \<Rightarrow> (string \<times> player) list option" where
  "json_players (JObject kvs) =
     those (map (\<lambda>(k, v). map_option (\<lambda>p. (k, p)) (json_player v)) kvs)"
| "json_players v = None"

definition json_latest :: "json \<Rightarrow> latest option" where
  "json_latest v =
     Option.bind (Option.bind (field ''player'' v) as_string) (\<lambda>a.
     Option.bind (Option.bind (field ''matchId'' v) as_string) (\<lambda>b.
     Option.bind (Option.bind (field ''at'' v) as_iso) (\<lambda>c.
     Some \<lparr>lm_player = a, lm_matchId = b, lm_at = c\<rparr>)))"

definition json_state :: "json \<Rightarrow> state option" where
  "json_state v =
     Option.bind (Option.bind (field ''players'' v) json_players) (\<lambda>a.
     Option.bind (Option.bind (field ''latestMatch'' v) (nullable json_latest)) (\<lambda>b.
     Option.bind (Option.bind (field ''createdAt'' v) as_iso) (\<lambda>c.
     Some \<lparr>players = a, latestMatch = b, createdAt = c\<rparr>)))"

text \<open>
  The data file: its text is either no JSON at all (\<open>JSON.parse\<close> throws) or denotes a
  value. \<open>fs.existsSync\<close> is \<open>d_file \<noteq> None\<close>; \<open>read_fails\<close> and \<open>write_fails\<close> say whether
  \<open>readFileSync\<close> and \<open>writeFileSync\<close> throw.
\<close>

datatype file_text = Malformed | Text json

record disk =
  d_file :: "file_text option"
  read_fails :: bool
  write_fails :: bool

text \<open>The body of the roster loop of \<open>loadState\<close>.\<close>

definition merge_roster :: "(string \<times> player) list \<Rightarrow> roster_entry \<Rightarrow> (string \<times> player) list" where
  "merge_roster ps r =
     (case map_of ps (r_name r) of
        None \<Rightarrow> AList.update (r_name r) (default_player r) ps
      | Some _ \<Rightarrow> AList.map_entry (r_name r) (\<lambda>q. q\<lparr>p_url := r_url r\<rparr>) ps)"

text \<open>
  \<open>loadState\<close>: every way out of the \<open>try\<close> block but the last ends in \<open>defaultState\<close>.
  The first argument is the clock reading \<open>defaultState\<close> uses.
\<close>

definition loadState :: "instant \<Rightarrow> disk \<Rightarrow> state" where
  "loadState now d =
     (case d_file d of
        None \<Rightarrow> defaultState now
      | Some raw \<Rightarrow>
          if read_fails d then defaultState now
          else (case raw of
              Malformed \<Rightarrow> defaultState now
            | Text v \<Rightarrow>
                (case json_state v of
                   None \<Rightarrow> defaultState now
                 | Some parsed \<Rightarrow> parsed\<lparr>players := foldl merge_roster (players parsed) PLAYERS\<rparr>)))"

text \<open>\<open>saveState\<close>: a write that throws is logged and leaves the file as it was.\<close>

definition saveState :: "state \<Rightarrow> disk \<Rightarrow> disk" where
  "saveState st d =
     (if write_fails d then d else d\<lparr>d_file := Some (Text (state_json st))\<rparr>)"

section \<open>Overlap computation\<close>

text \<open>A sweep event \<open>{ t, type, who }\<close>, \<open>type\<close> being \<open>+1\<close> or \<open>-1\<close>.\<close>

record event =
  ev_t :: int
  ev_type :: int
  ev_who :: string

text \<open>
  The clock. \<open>nowUtc()\<close> is called afresh at every use: once inside \<open>isPlayingNow\<close> (when
  \<open>lastMatchAt\<close> is present) and once more for the end of each open session of a player
  who is playing now. During one call of \<open>computeOverlaps\<close> the readings are numbered in
  the order they are taken, \<open>clk n\<close> being reading number \<open>n\<close>; a function that reads the
  clock takes the number of readings taken so far and returns it updated.
\<close>

type_synonym clock = "nat \<Rightarrow> instant"

text \<open>The call \<open>isPlayingNow(p)\<close>: no reading when \<open>lastMatchAt\<close> is null, one otherwise.\<close>

definition isPlayingNow_call :: "clock \<Rightarrow> nat \<Rightarrow> player \<Rightarrow> bool \<times> nat" where
  "isPlayingNow_call clk n p =
     (case lastMatchAt p of
        None \<Rightarrow> (False, n)
      | Some _ \<Rightarrow> (isPlayingNow (clk n) p, Suc n))"

text \<open>
  The events one session contributes. The source tests \<open>!start\<close> too; a session's
  \<open>start\<close> is always an instant here, so that test never fires.
\<close>

definition session_end :: "clock \<Rightarrow> nat \<Rightarrow> player \<Rightarrow> session \<Rightarrow> instant option \<times> nat" where
  "session_end clk n p s =
     (case s_end s of
        Some e \<Rightarrow> (Some e, n)
      | None \<Rightarrow>
          (case isPlayingNow_call clk n p of (playing, n') \<Rightarrow>
             if playing then (Some (clk n'), Suc n') else (None, n')))"

definition session_events :: "clock \<Rightarrow> nat \<Rightarrow> player \<Rightarrow> session \<Rightarrow> event list \<times> nat" where
  "session_events clk n p s =
     (case session_end clk n p s of
        (None, n') \<Rightarrow> ([], n')
      | (Some e, n') \<Rightarrow>
          ([\<lparr>ev_t = s_start s, ev_type = 1, ev_who = p_name p\<rparr>,
            \<lparr>ev_t = e, ev_type = - 1, ev_who = p_name p\<rparr>], n'))"

text \<open>The inner loop, over the sessions of one player.\<close>

fun player_events :: "clock \<Rightarrow> nat \<Rightarrow> player \<Rightarrow> session list \<Rightarrow> event list \<times> nat" where
  "player_events clk n p [] = ([], n)"
| "player_events clk n p (s # ss) =
     (case session_events clk n p s of (evs, n') \<Rightarrow>
        (case player_events clk n' p ss of (rest, n'') \<Rightarrow> (evs @ rest, n'')))"

text \<open>The outer loop, over \<open>Object.values(state.players)\<close>.\<close>

fun players_events :: "clock \<Rightarrow> nat \<Rightarrow> (string \<times> player) list \<Rightarrow> event list \<times> nat" where
  "players_events clk n [] = ([], n)"
| "players_events clk n ((k, p) # ps) =
     (case player_events clk n p (sessions p) of (evs, n') \<Rightarrow>
        (case players_events clk n' ps of (rest, n'') \<Rightarrow> (evs @ rest, n'')))"

definition build_events :: "clock \<Rightarrow> state \<Rightarrow> event list" where
  "build_events clk st = fst (players_events clk 0 (players st))"

text \<open>The comparator handed to \<open>events.sort\<close>.\<close>

definition cmp_events :: "event \<Rightarrow> event \<Rightarrow> int" where
  "cmp_events a b = (if ev_t a = ev_t b then ev_type a - ev_type b else ev_t a - ev_t b)"

text \<open>
  \<open>Array.prototype.sort\<close> is stable, and the comparator is a consistent ordering of the
  pairs \<open>(t, type)\<close>, so the result is the stable sorted arrangement whatever algorithm
  the engine runs; a stable insertion sort computes it.
\<close>

fun insert_event :: "event \<Rightarrow> event list \<Rightarrow> event list" where
  "insert_event x [] = [x]"
| "insert_event x (y # ys) =
     (if cmp_events x y \<le> 0 then x # y # ys else y # insert_event x ys)"

definition sort_events :: "event list \<Rightarrow> event list" where
  "sort_events xs = foldr insert_event xs []"

text \<open>An emitted interval; instants again as epoch milliseconds.\<close>

record interval =
  iv_start :: instant
  iv_end :: instant
  durationMs :: int
  iv_players :: "string list"
  iv_count :: int

text \<open>
  The JavaScript \<open>Set\<close> of active players, kept as the list of its members in insertion
  order (what \<open>Array.from\<close> returns); \<open>size\<close> is its length.
\<close>

definition set_add :: "string \<Rightarrow> string list \<Rightarrow> string list" where
  "set_add x xs = (if x \<in> set xs then xs else xs @ [x])"

definition set_delete :: "string \<Rightarrow> string list \<Rightarrow> string list" where
  "set_delete x xs = removeAll x xs"

record sweep =
  active :: "string list"
  emitted :: "interval list"
  prevT :: "int option"

definition sweep_init :: sweep where
  "sweep_init = \<lparr>active = [], emitted = [], prevT = None\<rparr>"

text \<open>One iteration of the loop over the sorted events.\<close>

definition sweep_step :: "sweep \<Rightarrow> event \<Rightarrow> sweep" where
  "sweep_step s ev =
     \<lparr>active =
        (if ev_type ev = - 1 then set_delete (ev_who ev) (active s)
         else if ev_type ev = 1 then set_add (ev_who ev) (active s)
         else active s),
      emitted =
        (case prevT s of
           None \<Rightarrow> emitted s
         | Some segStart \<Rightarrow>
             if int (length (active s)) \<ge> 2 \<and> ev_t ev > segStart
             then emitted s @
                  [\<lparr>iv_start = segStart, iv_end = ev_t ev, durationMs = ev_t ev - segStart,
                    iv_players = active s, iv_count = int (length (active s))\<rparr>]
             else emitted s),
      prevT = Some (ev_t ev)\<rparr>"

definition sweep_all :: "event list \<Rightarrow> interval list" where
  "sweep_all evs = emitted (foldl sweep_step sweep_init evs)"

text \<open>The summary loop: three running totals.\<close>

definition summary_step :: "int \<times> int \<times> int \<Rightarrow> interval \<Rightarrow> int \<times> int \<times> int" where
  "summary_step acc seg =
     (case acc of (e2, e3, e4) \<Rightarrow>
        if iv_count seg = 2 then (e2 + durationMs seg, e3, e4)
        else if iv_count seg = 3 then (e2, e3 + durationMs seg, e4)
        else if iv_count seg \<ge> 4 then (e2, e3, e4 + durationMs seg)
        else (e2, e3, e4))"

record summary =
  exactly2Ms :: int
  exactly3Ms :: int
  exactly4Ms :: int
  twoOrMoreMs :: int

record overlaps =
  summary :: summary
  intervals :: "interval list"

definition all_intervals :: "clock \<Rightarrow> state \<Rightarrow> interval list" where
  "all_intervals clk st = sweep_all (sort_events (build_events clk st))"

text \<open>
  \<open>computeOverlaps\<close> works on the global \<open>state\<close>; the state it leaves behind is returned
  beside its result. \<open>slice(-100)\<close> keeps the last 100 elements, or all when there are
  fewer.
\<close>

definition computeOverlaps :: "clock \<Rightarrow> state \<Rightarrow> overlaps \<times> state" where
  "computeOverlaps clk st =
     (let ivs = all_intervals clk st in
      case foldl summary_step (0, 0, 0) ivs of (e2, e3, e4) \<Rightarrow>
        (\<lparr>summary = \<lparr>exactly2Ms = e2, exactly3Ms = e3, exactly4Ms = e4,
                      twoOrMoreMs = e2 + e3 + e4\<rparr>,
          intervals = drop (length ivs - 100) ivs\<rparr>,
         st))"

section \<open>Sequences of mutations of the store\<close>

text \<open>
  The store is written at two places only: the loop body of \<open>scanAll\<close> (one observation
  of one player) and \<open>closeInactiveSessions\<close> (one sweep at one clock reading). A
  history of the store is a list of these. An observation that throws has written
  nothing, so it leaves the store as it was.
\<close>

datatype mutation = Observe string info | Sweep instant

fun apply_mutation :: "state \<Rightarrow> mutation \<Rightarrow> state" where
  "apply_mutation st (Observe nm i) =
     (case scan_player nm (Some i) st of Inl _ \<Rightarrow> st | Inr st' \<Rightarrow> st')"
| "apply_mutation st (Sweep nowIso) = closeInactiveSessions nowIso st"

definition run :: "mutation list \<Rightarrow> state \<Rightarrow> state" where
  "run ms st = foldl apply_mutation st ms"

text \<open>
  Whether an observation is not older than what the player's entry already holds: it
  repeats the stored match id, or its instant is not before the stored \<open>lastMatchAt\<close>.
\<close>

fun in_order :: "state \<Rightarrow> mutation \<Rightarrow> bool" where
  "in_order st (Observe nm i) =
     (case map_of (players st) nm of
        None \<Rightarrow> True
      | Some p \<Rightarrow>
          (case lastMatchAt p of
             None \<Rightarrow> True
           | Some lastAt \<Rightarrow> lastMatchId p = Some (matchId i) \<or> lastAt \<le> atISO i))"
| "in_order st (Sweep nowIso) = True"

fun timestamps_in_order :: "state \<Rightarrow> mutation list \<Rightarrow> bool" where
  "timestamps_in_order st [] = True"
| "timestamps_in_order st (m # ms) =
     (in_order st m \<and> timestamps_in_order (apply_mutation st m) ms)"

section \<open>Auxiliary predicates\<close>

text \<open>What is shown of every emitted interval, as one predicate for the induction.\<close>

definition interval_wf :: "interval \<Rightarrow> bool" where
  "interval_wf iv =
     (iv_count iv = int (length (iv_players iv)) \<and> distinct (iv_players iv) \<and> iv_count iv \<ge> 2
      \<and> durationMs iv = iv_end iv - iv_start iv \<and> durationMs iv > 0)"

text \<open>Two entries with the same session log and last-match pointer.\<close>

definition same_history :: "player \<Rightarrow> player \<Rightarrow> bool" where
  "same_history p q =
     (sessions q = sessions p \<and> lastMatchId q = lastMatchId p \<and> lastMatchAt q = lastMatchAt p)"

text \<open>The order the comparator \<open>cmp_events\<close> induces: by instant, then by type.\<close>

definition ev_le :: "event \<Rightarrow> event \<Rightarrow> bool" where
  "ev_le a b = (ev_t a < ev_t b \<or> (ev_t a = ev_t b \<and> ev_type a \<le> ev_type b))"

text \<open>
  The loop invariant of the sweep for disjointness: the emitted intervals are pairwise
  in order, and none ends after the previous event's instant.
\<close>

definition chained :: "sweep \<Rightarrow> bool" where
  "chained s =
     (sorted_wrt (\<lambda>a b. iv_end a \<le> iv_start b) (emitted s)
      \<and> list_all (\<lambda>iv. case prevT s of None \<Rightarrow> False | Some pt \<Rightarrow> iv_end iv \<le> pt) (emitted s))"

text \<open>
  Predicates for the invariant of a player's session log: a session is closed; one
  session lies before another (starts no later, and has ended when the other starts);
  a session lies within the instant \<open>L\<close>.
\<close>

definition is_closed :: "session \<Rightarrow> bool" where
  "is_closed s = (s_end s \<noteq> None)"

definition before :: "session \<Rightarrow> session \<Rightarrow> bool" where
  "before a b =
     (s_start a \<le> s_start b \<and> (case s_end a of None \<Rightarrow> False | Some e \<Rightarrow> e \<le> s_start b))"

definition bounded_by :: "instant \<Rightarrow> session \<Rightarrow> bool" where
  "bounded_by L s = (s_start s \<le> L \<and> (case s_end s of None \<Rightarrow> True | Some e \<Rightarrow> e \<le> L))"

text \<open>Every session but the last is closed.\<close>

definition closed_before_last :: "player \<Rightarrow> bool" where
  "closed_before_last p = list_all is_closed (butlast (sessions p))"

text \<open>
  The invariant kept while observations arrive in order: earlier sessions are closed,
  the sessions are pairwise in order, and none reaches beyond \<open>lastMatchAt\<close>.
\<close>

definition player_inv :: "player \<Rightarrow> bool" where
  "player_inv p =
     (list_all is_closed (butlast (sessions p))
      \<and> sorted_wrt before (sessions p)
      \<and> (case lastMatchAt p of
           None \<Rightarrow> sessions p = []
         | Some L \<Rightarrow> list_all (bounded_by L) (sessions p)))"

text \<open>What the loop body of \<open>scanAll\<close> does to the entry of a player with a new match.\<close>

definition observe :: "info \<Rightarrow> player \<Rightarrow> player" where
  "observe i q =
     ensureSessionOnNewMatch (atISO i) (q\<lparr>lastMatchId := Some (matchId i), lastMatchAt := Some (atISO i)\<rparr>)"

text \<open>
  The events of a session read with the end it stores: none when the session is open.
\<close>

definition stored_events :: "string \<Rightarrow> session \<Rightarrow> event list" where
  "stored_events who s =
     (case s_end s of
        None \<Rightarrow> []
      | Some e \<Rightarrow> [\<lparr>ev_t = s_start s, ev_type = 1, ev_who = who\<rparr>,
                   \<lparr>ev_t = e, ev_type = - 1, ev_who = who\<rparr>])"

text \<open>
  The entry of a player with the open sessions made explicit at the instant \<open>now\<close>: closed
  at \<open>now\<close> when the player is playing now, removed otherwise.
\<close>

definition materialise :: "instant \<Rightarrow> player \<Rightarrow> player" where
  "materialise now p =
     p\<lparr>sessions :=
         (if isPlayingNow now p
          then map (\<lambda>s. case s_end s of None \<Rightarrow> s\<lparr>s_end := Some now\<rparr> | Some e \<Rightarrow> s) (sessions p)
          else filter (\<lambda>s. s_end s \<noteq> None) (sessions p))\<rparr>"

section \<open>The inactivity window\<close>

lemma minutes_over_window:
  "(\<bar>rat_of_int d / 60000\<bar> > INACTIVITY_MINUTES) = (\<bar>d\<bar> > 1800000)"
proof -
  have "\<bar>rat_of_int d / 60000\<bar> = rat_of_int \<bar>d\<bar> / 60000"
    by simp
  moreover have "(rat_of_int \<bar>d\<bar> / 60000 > 30) = (rat_of_int \<bar>d\<bar> > rat_of_int 1800000)"
    by (simp add: less_divide_eq)
  ultimately show ?thesis
    unfolding INACTIVITY_MINUTES_def of_int_less_iff by simp
qed

lemma isPlayingNow_ms:
  "isPlayingNow now p \<longleftrightarrow> (\<exists>T. lastMatchAt p = Some T \<and> \<bar>now - T\<bar> \<le> 1800000)"
  using minutes_over_window [of "now - the (lastMatchAt p)"]
  by (auto simp: isPlayingNow_def minutesBetween_def not_less [symmetric] split: option.splits)

lemma close_inactive_over_window:
  assumes "has_open_session (sessions p)" and "lastMatchAt p = Some T"
    and "now - T > 1800000"
  shows "close_inactive now p = p\<lparr>sessions := set_last_end T (sessions p)\<rparr>"
  using assms minutes_over_window [of "now - T"]
  by (simp add: close_inactive_def minutesBetween_def)

lemma map_of_closeInactiveSessions:
  "map_of (players (closeInactiveSessions now st)) k =
     map_option (close_inactive now) (map_of (players st) k)"
  by (simp add: closeInactiveSessions_def map_of_map)

text \<open>
  C7, as amended. \<open>isPlayingNow\<close> is true exactly when \<open>lastMatchAt\<close> is present and the
  absolute difference between the current instant and \<open>lastMatchAt\<close>, in minutes, is at
  most \<open>INACTIVITY_MINUTES\<close>; it is false whenever \<open>lastMatchAt\<close> is null. The distance is
  taken without its sign (\<open>Math.abs\<close> in \<open>minutesBetween\<close>), so a \<open>lastMatchAt\<close> more
  than the window ahead of the clock is not playing now.
\<close>

theorem isPlayingNow_iff_within_window:
  "(isPlayingNow now p \<longleftrightarrow>
      (\<exists>T. lastMatchAt p = Some T \<and> \<bar>rat_of_int (now - T)\<bar> / 60000 \<le> INACTIVITY_MINUTES))
   \<and> (lastMatchAt p = None \<longrightarrow> \<not> isPlayingNow now p)"
  by (auto simp: isPlayingNow_def minutesBetween_def split: option.splits)

theorem isPlayingNow_iff_within_window_witness:
  "isPlayingNow 1800000
     \<lparr>p_name = ''Lulau22'', p_url = [], lastMatchId = Some ''m1'', lastMatchAt = Some 0,
      sessions = [\<lparr>s_start = 0, s_end = None\<rparr>]\<rparr>
   \<and> \<not> isPlayingNow 1800000
     \<lparr>p_name = ''Lulau22'', p_url = [], lastMatchId = None, lastMatchAt = None,
      sessions = []\<rparr>"
  using isPlayingNow_iff_within_window [of 1800000
      "\<lparr>p_name = ''Lulau22'', p_url = [], lastMatchId = Some ''m1'', lastMatchAt = Some 0,
        sessions = [\<lparr>s_start = 0, s_end = None\<rparr>]\<rparr>"]
    isPlayingNow_iff_within_window [of 1800000
      "\<lparr>p_name = ''Lulau22'', p_url = [], lastMatchId = None, lastMatchAt = None,
        sessions = []\<rparr>"]
  by (simp add: INACTIVITY_MINUTES_def)

text \<open>
  C7 as the claim words it, with the signed difference \<open>now - lastMatchAt\<close>, fails: with
  \<open>lastMatchAt\<close> one hour after the current instant the signed difference is \<open>-60\<close>
  minutes, which is at most the window, and \<open>isPlayingNow\<close> returns false.
\<close>

theorem isPlayingNow_signed_counterexample:
  "lastMatchAt \<lparr>p_name = ''Lulau22'', p_url = [], lastMatchId = Some ''m1'',
                lastMatchAt = Some 3600000, sessions = [\<lparr>s_start = 3600000, s_end = None\<rparr>]\<rparr>
     = Some 3600000
   \<and> rat_of_int (0 - 3600000) / 60000 \<le> INACTIVITY_MINUTES
   \<and> \<not> isPlayingNow 0
       \<lparr>p_name = ''Lulau22'', p_url = [], lastMatchId = Some ''m1'',
        lastMatchAt = Some 3600000, sessions = [\<lparr>s_start = 3600000, s_end = None\<rparr>]\<rparr>"
  by (simp add: isPlayingNow_def minutesBetween_def INACTIVITY_MINUTES_def)

text \<open>
  C3. A player with an open session and \<open>lastMatchAt = T\<close>, swept by
  \<open>closeInactiveSessions\<close> at an instant \<open>now\<close> with \<open>now - T\<close> strictly more than the
  inactivity window: the last session is closed with \<open>end = T\<close>, the last observation
  instant and not \<open>now\<close>; nothing else of the entry changes.
\<close>

theorem sweep_closes_at_last_match:
  assumes "map_of (players st) k = Some p"
    and "has_open_session (sessions p)"
    and "lastMatchAt p = Some T"
    and "rat_of_int (now - T) / 60000 > INACTIVITY_MINUTES"
  shows "map_of (players (closeInactiveSessions now st)) k =
           Some (p\<lparr>sessions := butlast (sessions p) @ [(last (sessions p))\<lparr>s_end := Some T\<rparr>]\<rparr>)"
proof -
  from assms(4) have "now - T > 1800000"
    by (simp add: INACTIVITY_MINUTES_def less_divide_eq)
  from close_inactive_over_window [OF assms(2,3) this] assms(1) show ?thesis
    by (simp add: map_of_closeInactiveSessions set_last_end_def)
qed

theorem sweep_closes_at_last_match_witness:
  "map_of (players (closeInactiveSessions 1860000
      \<lparr>players = [(''Lulau22'',
          \<lparr>p_name = ''Lulau22'', p_url = [], lastMatchId = Some ''m1'', lastMatchAt = Some 0,
           sessions = [\<lparr>s_start = 0, s_end = None\<rparr>]\<rparr>)],
       latestMatch = None, createdAt = 0\<rparr>)) ''Lulau22''
   = Some \<lparr>p_name = ''Lulau22'', p_url = [], lastMatchId = Some ''m1'', lastMatchAt = Some 0,
           sessions = [\<lparr>s_start = 0, s_end = Some 0\<rparr>]\<rparr>"
  using sweep_closes_at_last_match [of
      "\<lparr>players = [(''Lulau22'',
          \<lparr>p_name = ''Lulau22'', p_url = [], lastMatchId = Some ''m1'', lastMatchAt = Some 0,
           sessions = [\<lparr>s_start = 0, s_end = None\<rparr>]\<rparr>)],
        latestMatch = None, createdAt = 0\<rparr>"
      "''Lulau22''"
      "\<lparr>p_name = ''Lulau22'', p_url = [], lastMatchId = Some ''m1'', lastMatchAt = Some 0,
        sessions = [\<lparr>s_start = 0, s_end = None\<rparr>]\<rparr>"
      0 1860000]
  by (simp add: has_open_session_def INACTIVITY_MINUTES_def)

section \<open>Dedupe by match id\<close>

text \<open>
  C6. An observation whose \<open>matchId\<close> equals the player's stored \<open>lastMatchId\<close> changes
  nothing: the loop body of \<open>scanAll\<close> returns the very state it was given, so no session
  is appended or modified and \<open>lastMatchAt\<close>, \<open>lastMatchId\<close> keep their values.
\<close>

theorem same_match_id_changes_nothing:
  assumes "map_of (players st) nm = Some p"
    and "lastMatchId p = Some (matchId i)"
  shows "scan_player nm (Some i) st = Inr st"
  using assms by (simp add: scan_player_def)

theorem same_match_id_changes_nothing_witness:
  "scan_player ''Lulau22'' (Some \<lparr>matchId = ''m1'', atISO = 900000\<rparr>)
      \<lparr>players = [(''Lulau22'',
          \<lparr>p_name = ''Lulau22'', p_url = [], lastMatchId = Some ''m1'', lastMatchAt = Some 0,
           sessions = [\<lparr>s_start = 0, s_end = None\<rparr>]\<rparr>)],
       latestMatch = None, createdAt = 0\<rparr>
   = Inr \<lparr>players = [(''Lulau22'',
          \<lparr>p_name = ''Lulau22'', p_url = [], lastMatchId = Some ''m1'', lastMatchAt = Some 0,
           sessions = [\<lparr>s_start = 0, s_end = None\<rparr>]\<rparr>)],
       latestMatch = None, createdAt = 0\<rparr>"
  using same_match_id_changes_nothing [of
      "\<lparr>players = [(''Lulau22'',
          \<lparr>p_name = ''Lulau22'', p_url = [], lastMatchId = Some ''m1'', lastMatchAt = Some 0,
           sessions = [\<lparr>s_start = 0, s_end = None\<rparr>]\<rparr>)],
        latestMatch = None, createdAt = 0\<rparr>"
      "''Lulau22''"
      "\<lparr>p_name = ''Lulau22'', p_url = [], lastMatchId = Some ''m1'', lastMatchAt = Some 0,
        sessions = [\<lparr>s_start = 0, s_end = None\<rparr>]\<rparr>"
      "\<lparr>matchId = ''m1'', atISO = 900000\<rparr>"]
  by simp

section \<open>Summary and shape of the emitted intervals\<close>

lemma summary_fold:
  "foldl summary_step (a, b, c) ivs =
     (a + sum_list (map durationMs (filter (\<lambda>s. iv_count s = 2) ivs)),
      b + sum_list (map durationMs (filter (\<lambda>s. iv_count s = 3) ivs)),
      c + sum_list (map durationMs (filter (\<lambda>s. iv_count s \<ge> 4) ivs)))"
  by (induction ivs arbitrary: a b c) (auto simp: summary_step_def)

lemma returned_intervals:
  "intervals (fst (computeOverlaps clk st)) =
     drop (length (all_intervals clk st) - 100) (all_intervals clk st)"
  by (simp add: computeOverlaps_def Let_def summary_fold)

lemma returned_subset:
  "set (intervals (fst (computeOverlaps clk st))) \<subseteq> set (all_intervals clk st)"
  by (simp add: returned_intervals set_drop_subset)

text \<open>
  C5. In the result of \<open>computeOverlaps\<close>, \<open>exactly2Ms\<close>, \<open>exactly3Ms\<close> and \<open>exactly4Ms\<close>
  are the sums of \<open>durationMs\<close> over all emitted intervals with count 2, count 3 and
  count at least 4; \<open>twoOrMoreMs\<close> is the sum of the three. The sums range over every
  interval the sweep emitted (\<open>all_intervals\<close>), while the returned list is only its last
  100 elements.
\<close>

theorem summary_sums_all_intervals:
  "exactly2Ms (summary (fst (computeOverlaps clk st))) =
     sum_list (map durationMs (filter (\<lambda>seg. iv_count seg = 2) (all_intervals clk st)))
   \<and> exactly3Ms (summary (fst (computeOverlaps clk st))) =
     sum_list (map durationMs (filter (\<lambda>seg. iv_count seg = 3) (all_intervals clk st)))
   \<and> exactly4Ms (summary (fst (computeOverlaps clk st))) =
     sum_list (map durationMs (filter (\<lambda>seg. iv_count seg \<ge> 4) (all_intervals clk st)))
   \<and> twoOrMoreMs (summary (fst (computeOverlaps clk st))) =
     exactly2Ms (summary (fst (computeOverlaps clk st)))
     + exactly3Ms (summary (fst (computeOverlaps clk st)))
     + exactly4Ms (summary (fst (computeOverlaps clk st)))
   \<and> intervals (fst (computeOverlaps clk st)) =
     drop (length (all_intervals clk st) - 100) (all_intervals clk st)"
  by (simp add: computeOverlaps_def Let_def summary_fold)

lemma interval_wf_card:
  "interval_wf iv \<Longrightarrow>
     iv_count iv = int (length (iv_players iv))
      \<and> distinct (iv_players iv)
      \<and> int (card (set (iv_players iv))) = iv_count iv
      \<and> iv_count iv \<ge> 2
      \<and> durationMs iv = iv_end iv - iv_start iv
      \<and> durationMs iv > 0"
  by (simp add: interval_wf_def distinct_card)

lemma sweep_step_wf:
  "distinct (active s) \<Longrightarrow> list_all interval_wf (emitted s) \<Longrightarrow>
   distinct (active (sweep_step s ev)) \<and> list_all interval_wf (emitted (sweep_step s ev))"
  by (auto simp: sweep_step_def set_add_def set_delete_def interval_wf_def distinct_removeAll
      split: option.splits)

lemma sweep_fold_wf:
  "distinct (active s) \<Longrightarrow> list_all interval_wf (emitted s) \<Longrightarrow>
   distinct (active (foldl sweep_step s evs)) \<and>
   list_all interval_wf (emitted (foldl sweep_step s evs))"
proof (induction evs arbitrary: s)
  case Nil
  then show ?case by simp
next
  case (Cons e evs)
  from sweep_step_wf [OF Cons.prems] show ?case
    using Cons.IH by simp
qed

lemma sweep_all_wf: "list_all interval_wf (sweep_all evs)"
  using sweep_fold_wf [of sweep_init evs] by (simp add: sweep_all_def sweep_init_def)

text \<open>
  C8. Every interval \<open>computeOverlaps\<close> emits (and so every one it returns) has
  \<open>count\<close> equal to the number of its participants, who are pairwise different, at least
  2 of them, and \<open>durationMs = end - start > 0\<close>. An event whose instant equals the
  previous event's instant emits nothing.
\<close>

theorem emitted_intervals_well_formed:
  "(\<forall>iv \<in> set (all_intervals clk st) \<union> set (intervals (fst (computeOverlaps clk st))).
      iv_count iv = int (length (iv_players iv))
      \<and> distinct (iv_players iv)
      \<and> int (card (set (iv_players iv))) = iv_count iv
      \<and> iv_count iv \<ge> 2
      \<and> durationMs iv = iv_end iv - iv_start iv
      \<and> durationMs iv > 0)
   \<and> (prevT s = Some (ev_t ev) \<longrightarrow> emitted (sweep_step s ev) = emitted s)"
proof -
  have "list_all interval_wf (all_intervals clk st)"
    unfolding all_intervals_def by (rule sweep_all_wf)
  then have "\<forall>iv \<in> set (all_intervals clk st). interval_wf iv"
    by (simp add: list_all_iff)
  with returned_subset [of clk st]
  have "\<forall>iv \<in> set (all_intervals clk st) \<union> set (intervals (fst (computeOverlaps clk st))).
          interval_wf iv"
    by blast
  moreover have "prevT s = Some (ev_t ev) \<longrightarrow> emitted (sweep_step s ev) = emitted s"
    by (simp add: sweep_step_def)
  ultimately show ?thesis
    by (metis interval_wf_card)
qed

theorem emitted_intervals_well_formed_witness:
  "\<lparr>iv_start = 900000, iv_end = 1800000, durationMs = 900000,
    iv_players = [''Zumito Kun'', ''Lulau22''], iv_count = 2\<rparr>
     \<in> set (intervals (fst (computeOverlaps (\<lambda>n. 9000000)
      \<lparr>players =
        [(''Zumito Kun'', \<lparr>p_name = ''Zumito Kun'', p_url = [], lastMatchId = Some ''m1'',
            lastMatchAt = Some 1800000, sessions = [\<lparr>s_start = 0, s_end = Some 1800000\<rparr>]\<rparr>),
         (''Lulau22'', \<lparr>p_name = ''Lulau22'', p_url = [], lastMatchId = Some ''m2'',
            lastMatchAt = Some 2700000, sessions = [\<lparr>s_start = 900000, s_end = Some 2700000\<rparr>]\<rparr>)],
       latestMatch = None, createdAt = 0\<rparr>)))
   \<and> int (card (set [''Zumito Kun'', ''Lulau22''])) = 2
   \<and> emitted (sweep_step \<lparr>active = [''Zumito Kun'', ''Lulau22''], emitted = [], prevT = Some 900000\<rparr>
               \<lparr>ev_t = 900000, ev_type = - 1, ev_who = ''Lulau22''\<rparr>) = []"
proof -
  have mem: "\<lparr>iv_start = 900000, iv_end = 1800000, durationMs = 900000,
      iv_players = [''Zumito Kun'', ''Lulau22''], iv_count = 2\<rparr>
     \<in> set (intervals (fst (computeOverlaps (\<lambda>n. 9000000)
      \<lparr>players =
        [(''Zumito Kun'', \<lparr>p_name = ''Zumito Kun'', p_url = [], lastMatchId = Some ''m1'',
            lastMatchAt = Some 1800000, sessions = [\<lparr>s_start = 0, s_end = Some 1800000\<rparr>]\<rparr>),
         (''Lulau22'', \<lparr>p_name = ''Lulau22'', p_url = [], lastMatchId = Some ''m2'',
            lastMatchAt = Some 2700000, sessions = [\<lparr>s_start = 900000, s_end = Some 2700000\<rparr>]\<rparr>)],
       latestMatch = None, createdAt = 0\<rparr>)))"
    by code_simp
  from mem emitted_intervals_well_formed [of "\<lambda>n. 9000000"
      "\<lparr>players =
        [(''Zumito Kun'', \<lparr>p_name = ''Zumito Kun'', p_url = [], lastMatchId = Some ''m1'',
            lastMatchAt = Some 1800000, sessions = [\<lparr>s_start = 0, s_end = Some 1800000\<rparr>]\<rparr>),
         (''Lulau22'', \<lparr>p_name = ''Lulau22'', p_url = [], lastMatchId = Some ''m2'',
            lastMatchAt = Some 2700000, sessions = [\<lparr>s_start = 900000, s_end = Some 2700000\<rparr>]\<rparr>)],
       latestMatch = None, createdAt = 0\<rparr>"
      "\<lparr>active = [''Zumito Kun'', ''Lulau22''], emitted = [], prevT = Some 900000\<rparr>"
      "\<lparr>ev_t = 900000, ev_type = - 1, ev_who = ''Lulau22''\<rparr>"]
  show ?thesis
    by fastforce
qed

section \<open>Order of the sorted events and of the emitted intervals\<close>

lemma cmp_events_le: "(cmp_events a b \<le> 0) = ev_le a b"
  by (auto simp: cmp_events_def ev_le_def)

lemma ev_le_trans: "ev_le a b \<Longrightarrow> ev_le b c \<Longrightarrow> ev_le a c"
  by (auto simp: ev_le_def)

lemma ev_le_total: "\<not> ev_le a b \<Longrightarrow> ev_le b a"
  by (auto simp: ev_le_def)

lemma set_insert_event: "set (insert_event x ys) = insert x (set ys)"
  by (induction ys) auto

lemma sorted_insert_event:
  "sorted_wrt ev_le ys \<Longrightarrow> sorted_wrt ev_le (insert_event x ys)"
proof (induction ys)
  case Nil
  then show ?case by simp
next
  case (Cons y ys)
  show ?case
  proof (cases "cmp_events x y \<le> 0")
    case True
    then have "ev_le x y" by (simp add: cmp_events_le)
    with Cons.prems have "\<forall>z \<in> set (y # ys). ev_le x z"
      by (auto intro: ev_le_trans)
    with True Cons.prems show ?thesis by simp
  next
    case False
    then have "ev_le y x" by (simp add: cmp_events_le ev_le_total)
    with False Cons show ?thesis
      by (auto simp: set_insert_event)
  qed
qed

lemma sorted_sort_events: "sorted_wrt ev_le (sort_events xs)"
  unfolding sort_events_def by (induction xs) (simp_all add: sorted_insert_event)

lemma sort_events_by_instant: "sorted (map ev_t (sort_events xs))"
proof -
  have "sorted_wrt (\<lambda>a b. ev_t a \<le> ev_t b) (sort_events xs)"
    by (rule sorted_wrt_mono_rel [OF _ sorted_sort_events]) (auto simp: ev_le_def)
  then show ?thesis by (simp add: sorted_map)
qed

lemma sweep_step_chained:
  assumes "chained s" and "\<forall>pt. prevT s = Some pt \<longrightarrow> pt \<le> ev_t ev"
  shows "chained (sweep_step s ev)"
  using assms
  by (cases "prevT s")
     (auto simp: chained_def sweep_step_def sorted_wrt_append list_all_iff)

lemma sweep_fold_chained:
  assumes "sorted (map ev_t evs)" and "chained s"
    and "\<forall>pt. prevT s = Some pt \<longrightarrow> (\<forall>e \<in> set evs. pt \<le> ev_t e)"
  shows "chained (foldl sweep_step s evs)"
  using assms
proof (induction evs arbitrary: s)
  case Nil
  then show ?case by simp
next
  case (Cons e evs)
  have "chained (sweep_step s e)"
    using Cons.prems by (intro sweep_step_chained) auto
  moreover have "\<forall>pt. prevT (sweep_step s e) = Some pt \<longrightarrow> (\<forall>e' \<in> set evs. pt \<le> ev_t e')"
    using Cons.prems(1) by (auto simp: sweep_step_def)
  moreover have "sorted (map ev_t evs)"
    using Cons.prems(1) by simp
  ultimately show ?case
    using Cons.IH by simp
qed

lemma sweep_all_chained:
  "sorted (map ev_t evs) \<Longrightarrow> sorted_wrt (\<lambda>a b. iv_end a \<le> iv_start b) (sweep_all evs)"
  using sweep_fold_chained [of evs sweep_init]
  by (simp add: sweep_all_def chained_def sweep_init_def)

text \<open>
  C10. The intervals \<open>computeOverlaps\<close> emits, and the list it returns, are in
  chronological order and pairwise disjoint: every interval ends no later than any later
  interval starts; in particular each interval starts no earlier than the previous one
  ends.
\<close>

theorem intervals_chronological_disjoint:
  "sorted_wrt (\<lambda>a b. iv_end a \<le> iv_start b) (all_intervals clk st)
   \<and> sorted_wrt (\<lambda>a b. iv_end a \<le> iv_start b) (intervals (fst (computeOverlaps clk st)))
   \<and> (\<forall>i. Suc i < length (intervals (fst (computeOverlaps clk st))) \<longrightarrow>
         iv_end (intervals (fst (computeOverlaps clk st)) ! i)
           \<le> iv_start (intervals (fst (computeOverlaps clk st)) ! Suc i))"
proof -
  have a: "sorted_wrt (\<lambda>a b. iv_end a \<le> iv_start b) (all_intervals clk st)"
    unfolding all_intervals_def by (rule sweep_all_chained) (rule sort_events_by_instant)
  then have b: "sorted_wrt (\<lambda>a b. iv_end a \<le> iv_start b) (intervals (fst (computeOverlaps clk st)))"
    by (simp add: returned_intervals sorted_wrt_drop)
  from b have "\<forall>i. Suc i < length (intervals (fst (computeOverlaps clk st))) \<longrightarrow>
         iv_end (intervals (fst (computeOverlaps clk st)) ! i)
           \<le> iv_start (intervals (fst (computeOverlaps clk st)) ! Suc i)"
    by (simp add: sorted_wrt_iff_nth_less)
  with a b show ?thesis by blast
qed

theorem intervals_chronological_disjoint_witness:
  "intervals (fst (computeOverlaps (\<lambda>n. 9000000)
      \<lparr>players =
        [(''Zumito Kun'', \<lparr>p_name = ''Zumito Kun'', p_url = [], lastMatchId = Some ''m1'',
            lastMatchAt = Some 1800000, sessions = [\<lparr>s_start = 0, s_end = Some 1800000\<rparr>]\<rparr>),
         (''Lulau22'', \<lparr>p_name = ''Lulau22'', p_url = [], lastMatchId = Some ''m2'',
            lastMatchAt = Some 2400000, sessions = [\<lparr>s_start = 600000, s_end = Some 2400000\<rparr>]\<rparr>),
         (''Cronoxis'', \<lparr>p_name = ''Cronoxis'', p_url = [], lastMatchId = Some ''m3'',
            lastMatchAt = Some 3000000, sessions = [\<lparr>s_start = 1200000, s_end = Some 3000000\<rparr>]\<rparr>)],
       latestMatch = None, createdAt = 0\<rparr>))
   = [\<lparr>iv_start = 600000, iv_end = 1200000, durationMs = 600000,
         iv_players = [''Zumito Kun'', ''Lulau22''], iv_count = 2\<rparr>,
       \<lparr>iv_start = 1200000, iv_end = 1800000, durationMs = 600000,
         iv_players = [''Zumito Kun'', ''Lulau22'', ''Cronoxis''], iv_count = 3\<rparr>,
       \<lparr>iv_start = 1800000, iv_end = 2400000, durationMs = 600000,
         iv_players = [''Lulau22'', ''Cronoxis''], iv_count = 2\<rparr>]
   \<and> sorted_wrt (\<lambda>a b. iv_end a \<le> iv_start b)
      [\<lparr>iv_start = 600000, iv_end = 1200000, durationMs = 600000,
         iv_players = [''Zumito Kun'', ''Lulau22''], iv_count = 2\<rparr>,
       \<lparr>iv_start = 1200000, iv_end = 1800000, durationMs = 600000,
         iv_players = [''Zumito Kun'', ''Lulau22'', ''Cronoxis''], iv_count = 3\<rparr>,
       \<lparr>iv_start = 1800000, iv_end = 2400000, durationMs = 600000,
         iv_players = [''Lulau22'', ''Cronoxis''], iv_count = 2\<rparr>]"
proof -
  have eq: "intervals (fst (computeOverlaps (\<lambda>n. 9000000)
      \<lparr>players =
        [(''Zumito Kun'', \<lparr>p_name = ''Zumito Kun'', p_url = [], lastMatchId = Some ''m1'',
            lastMatchAt = Some 1800000, sessions = [\<lparr>s_start = 0, s_end = Some 1800000\<rparr>]\<rparr>),
         (''Lulau22'', \<lparr>p_name = ''Lulau22'', p_url = [], lastMatchId = Some ''m2'',
            lastMatchAt = Some 2400000, sessions = [\<lparr>s_start = 600000, s_end = Some 2400000\<rparr>]\<rparr>),
         (''Cronoxis'', \<lparr>p_name = ''Cronoxis'', p_url = [], lastMatchId = Some ''m3'',
            lastMatchAt = Some 3000000, sessions = [\<lparr>s_start = 1200000, s_end = Some 3000000\<rparr>]\<rparr>)],
       latestMatch = None, createdAt = 0\<rparr>))
   = [\<lparr>iv_start = 600000, iv_end = 1200000, durationMs = 600000,
         iv_players = [''Zumito Kun'', ''Lulau22''], iv_count = 2\<rparr>,
       \<lparr>iv_start = 1200000, iv_end = 1800000, durationMs = 600000,
         iv_players = [''Zumito Kun'', ''Lulau22'', ''Cronoxis''], iv_count = 3\<rparr>,
       \<lparr>iv_start = 1800000, iv_end = 2400000, durationMs = 600000,
         iv_players = [''Lulau22'', ''Cronoxis''], iv_count = 2\<rparr>]"
    by code_simp
  from intervals_chronological_disjoint [of "\<lambda>n. 9000000"
      "\<lparr>players =
        [(''Zumito Kun'', \<lparr>p_name = ''Zumito Kun'', p_url = [], lastMatchId = Some ''m1'',
            lastMatchAt = Some 1800000, sessions = [\<lparr>s_start = 0, s_end = Some 1800000\<rparr>]\<rparr>),
         (''Lulau22'', \<lparr>p_name = ''Lulau22'', p_url = [], lastMatchId = Some ''m2'',
            lastMatchAt = Some 2400000, sessions = [\<lparr>s_start = 600000, s_end = Some 2400000\<rparr>]\<rparr>),
         (''Cronoxis'', \<lparr>p_name = ''Cronoxis'', p_url = [], lastMatchId = Some ''m3'',
            lastMatchAt = Some 3000000, sessions = [\<lparr>s_start = 1200000, s_end = Some 3000000\<rparr>]\<rparr>)],
       latestMatch = None, createdAt = 0\<rparr>"]
  have "sorted_wrt (\<lambda>a b. iv_end a \<le> iv_start b) (intervals (fst (computeOverlaps (\<lambda>n. 9000000)
      \<lparr>players =
        [(''Zumito Kun'', \<lparr>p_name = ''Zumito Kun'', p_url = [], lastMatchId = Some ''m1'',
            lastMatchAt = Some 1800000, sessions = [\<lparr>s_start = 0, s_end = Some 1800000\<rparr>]\<rparr>),
         (''Lulau22'', \<lparr>p_name = ''Lulau22'', p_url = [], lastMatchId = Some ''m2'',
            lastMatchAt = Some 2400000, sessions = [\<lparr>s_start = 600000, s_end = Some 2400000\<rparr>]\<rparr>),
         (''Cronoxis'', \<lparr>p_name = ''Cronoxis'', p_url = [], lastMatchId = Some ''m3'',
            lastMatchAt = Some 3000000, sessions = [\<lparr>s_start = 1200000, s_end = Some 3000000\<rparr>]\<rparr>)],
       latestMatch = None, createdAt = 0\<rparr>)))"
    by blast
  with eq show ?thesis
    by simp
qed

section \<open>Open sessions in the overlap computation\<close>

lemma session_events_closed:
  "s_end s = Some e \<Longrightarrow> session_events clk n p s = (stored_events (p_name p) s, n)"
  by (simp add: session_events_def session_end_def stored_events_def)

lemma session_events_open:
  "s_end s = None \<Longrightarrow>
   session_events clk n p s =
     (case lastMatchAt p of
        None \<Rightarrow> ([], n)
      | Some _ \<Rightarrow>
          if isPlayingNow (clk n) p
          then ([\<lparr>ev_t = s_start s, ev_type = 1, ev_who = p_name p\<rparr>,
                 \<lparr>ev_t = clk (Suc n), ev_type = - 1, ev_who = p_name p\<rparr>], Suc (Suc n))
          else ([], Suc n))"
  by (simp add: session_events_def session_end_def isPlayingNow_call_def split: option.splits)

lemma session_events_open_not_playing:
  "s_end s = None \<Longrightarrow> \<not> isPlayingNow (clk n) p \<Longrightarrow> fst (session_events clk n p s) = []"
  by (simp add: session_events_open split: option.splits)

lemma session_events_open_playing:
  "s_end s = None \<Longrightarrow> isPlayingNow (clk n) p \<Longrightarrow>
   fst (session_events clk n p s) =
     [\<lparr>ev_t = s_start s, ev_type = 1, ev_who = p_name p\<rparr>,
      \<lparr>ev_t = clk (Suc n), ev_type = - 1, ev_who = p_name p\<rparr>]"
  by (auto simp: session_events_open isPlayingNow_def split: option.splits)

lemma player_events_Cons:
  "player_events clk n p (s # ss) =
     (fst (session_events clk n p s) @ fst (player_events clk (snd (session_events clk n p s)) p ss),
      snd (player_events clk (snd (session_events clk n p s)) p ss))"
  by (simp split: prod.splits)

lemma players_events_Cons:
  "players_events clk n ((k, p) # ps) =
     (fst (player_events clk n p (sessions p))
        @ fst (players_events clk (snd (player_events clk n p (sessions p))) ps),
      snd (players_events clk (snd (player_events clk n p (sessions p))) ps))"
  by (simp split: prod.splits)

lemma player_events_reach:
  "s \<in> set ss \<Longrightarrow>
   \<exists>m. set (fst (session_events clk m p s)) \<subseteq> set (fst (player_events clk n p ss))"
proof (induction ss arbitrary: n)
  case Nil
  then show ?case by simp
next
  case (Cons x ss)
  show ?case
  proof (cases "s = x")
    case True
    then have "set (fst (session_events clk n p s)) \<subseteq> set (fst (player_events clk n p (x # ss)))"
      by (simp add: player_events_Cons del: player_events.simps)
    then show ?thesis ..
  next
    case False
    with Cons.prems have "s \<in> set ss" by simp
    from Cons.IH [OF this, of "snd (session_events clk n p x)"]
    obtain m where "set (fst (session_events clk m p s))
        \<subseteq> set (fst (player_events clk (snd (session_events clk n p x)) p ss))" ..
    then have "set (fst (session_events clk m p s)) \<subseteq> set (fst (player_events clk n p (x # ss)))"
      by (auto simp add: player_events_Cons simp del: player_events.simps)
    then show ?thesis ..
  qed
qed

lemma players_events_reach:
  "(k, p) \<in> set ps \<Longrightarrow> s \<in> set (sessions p) \<Longrightarrow>
   \<exists>m. set (fst (session_events clk m p s)) \<subseteq> set (fst (players_events clk n ps))"
proof (induction ps arbitrary: n)
  case Nil
  then show ?case by simp
next
  case (Cons x ps)
  obtain k' p' where x: "x = (k', p')" by (cases x)
  show ?case
  proof (cases "(k, p) = x")
    case True
    with x have "p' = p" by simp
    from player_events_reach [OF Cons.prems(2), of clk p n]
    obtain m where "set (fst (session_events clk m p s))
        \<subseteq> set (fst (player_events clk n p (sessions p)))" ..
    with x \<open>p' = p\<close>
    have "set (fst (session_events clk m p s)) \<subseteq> set (fst (players_events clk n (x # ps)))"
      by (auto simp add: players_events_Cons simp del: players_events.simps)
    then show ?thesis ..
  next
    case False
    with Cons.prems have "(k, p) \<in> set ps" by simp
    from Cons.IH [OF this Cons.prems(2), of "snd (player_events clk n p' (sessions p'))"]
    obtain m where "set (fst (session_events clk m p s))
        \<subseteq> set (fst (players_events clk (snd (player_events clk n p' (sessions p'))) ps))" ..
    with x
    have "set (fst (session_events clk m p s)) \<subseteq> set (fst (players_events clk n (x # ps)))"
      by (auto simp add: players_events_Cons simp del: players_events.simps)
    then show ?thesis ..
  qed
qed

lemma player_events_origin:
  "e \<in> set (fst (player_events clk n p ss)) \<Longrightarrow>
   \<exists>s \<in> set ss. \<exists>m. e \<in> set (fst (session_events clk m p s))"
proof (induction ss arbitrary: n)
  case Nil
  then show ?case by simp
next
  case (Cons x ss)
  from Cons.prems consider "e \<in> set (fst (session_events clk n p x))"
    | "e \<in> set (fst (player_events clk (snd (session_events clk n p x)) p ss))"
    by (auto simp add: player_events_Cons simp del: player_events.simps)
  then show ?case
  proof cases
    case 1
    then show ?thesis by auto
  next
    case 2
    from Cons.IH [OF this] show ?thesis by auto
  qed
qed

lemma players_events_origin:
  "e \<in> set (fst (players_events clk n ps)) \<Longrightarrow>
   \<exists>(k, p) \<in> set ps. \<exists>s \<in> set (sessions p). \<exists>m. e \<in> set (fst (session_events clk m p s))"
proof (induction ps arbitrary: n)
  case Nil
  then show ?case by simp
next
  case (Cons x ps)
  obtain k' p' where x: "x = (k', p')" by (cases x)
  from Cons.prems x consider "e \<in> set (fst (player_events clk n p' (sessions p')))"
    | "e \<in> set (fst (players_events clk (snd (player_events clk n p' (sessions p'))) ps))"
    by (auto simp add: players_events_Cons simp del: players_events.simps)
  then show ?case
  proof cases
    case 1
    from player_events_origin [OF this] x show ?thesis by auto
  next
    case 2
    from Cons.IH [OF this] show ?thesis by auto
  qed
qed

lemma player_events_all_closed:
  "\<forall>s \<in> set ss. s_end s \<noteq> None \<Longrightarrow>
   player_events clk n p ss = (concat (map (stored_events (p_name p)) ss), n)"
  by (induction ss arbitrary: n) (auto simp: session_events_closed)

lemma session_events_const:
  "fst (session_events (\<lambda>_. now) n p s) =
     (case s_end s of
        Some e \<Rightarrow> stored_events (p_name p) s
      | None \<Rightarrow> if isPlayingNow now p then stored_events (p_name p) (s\<lparr>s_end := Some now\<rparr>) else [])"
  by (cases "s_end s")
     (auto simp: session_events_open session_events_closed stored_events_def isPlayingNow_def
        split: option.splits)

lemma player_events_const:
  "fst (player_events (\<lambda>_. now) n p ss) =
     concat (map (stored_events (p_name p))
       (if isPlayingNow now p
        then map (\<lambda>s. case s_end s of None \<Rightarrow> s\<lparr>s_end := Some now\<rparr> | Some e \<Rightarrow> s) ss
        else filter (\<lambda>s. s_end s \<noteq> None) ss))"
proof (induction ss arbitrary: n)
  case Nil
  then show ?case by simp
next
  case (Cons s ss)
  have "fst (player_events (\<lambda>_. now) n p (s # ss)) =
      fst (session_events (\<lambda>_. now) n p s)
        @ fst (player_events (\<lambda>_. now) (snd (session_events (\<lambda>_. now) n p s)) p ss)"
    by (simp add: player_events_Cons del: player_events.simps)
  also have "\<dots> = fst (session_events (\<lambda>_. now) n p s)
        @ concat (map (stored_events (p_name p))
       (if isPlayingNow now p
        then map (\<lambda>s. case s_end s of None \<Rightarrow> s\<lparr>s_end := Some now\<rparr> | Some e \<Rightarrow> s) ss
        else filter (\<lambda>s. s_end s \<noteq> None) ss))"
    by (simp only: Cons.IH)
  finally show ?case
    by (cases "s_end s") (simp_all add: session_events_const)
qed

lemma materialise_closed: "\<forall>s \<in> set (sessions (materialise now p)). s_end s \<noteq> None"
  by (auto simp: materialise_def split: option.splits)

lemma player_events_materialise:
  "player_events clk' n' (materialise now p) (sessions (materialise now p)) =
     (fst (player_events (\<lambda>_. now) n p (sessions p)), n')"
proof -
  have "player_events clk' n' (materialise now p) (sessions (materialise now p)) =
      (concat (map (stored_events (p_name (materialise now p))) (sessions (materialise now p))), n')"
    by (rule player_events_all_closed) (rule materialise_closed)
  moreover have "p_name (materialise now p) = p_name p"
    and "sessions (materialise now p) =
       (if isPlayingNow now p
        then map (\<lambda>s. case s_end s of None \<Rightarrow> s\<lparr>s_end := Some now\<rparr> | Some e \<Rightarrow> s) (sessions p)
        else filter (\<lambda>s. s_end s \<noteq> None) (sessions p))"
    by (simp_all add: materialise_def)
  ultimately show ?thesis
    by (simp only: player_events_const)
qed

lemma players_events_materialise:
  "players_events clk' n' (map (\<lambda>(k, p). (k, materialise now p)) ps) =
   (fst (players_events (\<lambda>_. now) n ps), n')"
proof (induction ps arbitrary: n n')
  case Nil
  then show ?case by simp
next
  case (Cons x ps)
  obtain k p where x: "x = (k, p)" by (cases x)
  from Cons.IH [of n' "snd (player_events (\<lambda>_. now) n p (sessions p))"] x show ?case
    by (simp add: players_events_Cons player_events_materialise [of _ _ _ _ n]
        del: players_events.simps)
qed

lemma build_events_materialise:
  "build_events clk' (st\<lparr>players := map (\<lambda>(k, p). (k, materialise now p)) (players st)\<rparr>) =
   build_events (\<lambda>_. now) st"
  by (simp add: build_events_def players_events_materialise [of _ _ _ _ 0])


lemma set_sort_events: "set (sort_events xs) = set xs"
  unfolding sort_events_def by (induction xs) (simp_all add: set_insert_event)

text \<open>
  C4. An open session (\<open>end == null\<close>) of a player who is not playing now, at the clock
  reading \<open>isPlayingNow\<close> takes for it, contributes no event. If the player is playing
  now, the session contributes the opening event at its start and the closing event at
  the next clock reading. Every session of the store is processed at some reading and
  what it contributes is among the events the sweep runs over, so an open session of a
  player who is playing now at every reading has both its events there; and every event
  the sweep runs over is contributed by a session of the store. When the clock does not
  advance during the call, \<open>computeOverlaps\<close> returns what it returns for the store in
  which each open session of a player playing now is closed at that instant and every
  other open session is removed. The store itself is left as it was: the synthetic end
  is not written into the session.
\<close>

theorem open_session_contribution:
  "(s_end s = None \<and> \<not> isPlayingNow (clk n) p \<longrightarrow> fst (session_events clk n p s) = [])
   \<and> (s_end s = None \<and> isPlayingNow (clk n) p \<longrightarrow>
        fst (session_events clk n p s) =
          [\<lparr>ev_t = s_start s, ev_type = 1, ev_who = p_name p\<rparr>,
           \<lparr>ev_t = clk (Suc n), ev_type = - 1, ev_who = p_name p\<rparr>])
   \<and> ((k, p) \<in> set (players st) \<and> s \<in> set (sessions p) \<longrightarrow>
        (\<exists>m. set (fst (session_events clk m p s)) \<subseteq> set (sort_events (build_events clk st))))
   \<and> ((k, p) \<in> set (players st) \<and> s \<in> set (sessions p) \<and> s_end s = None
        \<and> (\<forall>m. isPlayingNow (clk m) p) \<longrightarrow>
        (\<exists>m. \<lparr>ev_t = s_start s, ev_type = 1, ev_who = p_name p\<rparr>
                \<in> set (sort_events (build_events clk st))
            \<and> \<lparr>ev_t = clk m, ev_type = - 1, ev_who = p_name p\<rparr>
                \<in> set (sort_events (build_events clk st))))
   \<and> (e \<in> set (sort_events (build_events clk st)) \<longrightarrow>
        (\<exists>(k, p) \<in> set (players st). \<exists>s \<in> set (sessions p).
           \<exists>m. e \<in> set (fst (session_events clk m p s))))
   \<and> fst (computeOverlaps (\<lambda>_. now) st) =
       fst (computeOverlaps clk'
             (st\<lparr>players := map (\<lambda>(k, p). (k, materialise now p)) (players st)\<rparr>))
   \<and> snd (computeOverlaps clk st) = st"
proof -
  have reach: "\<exists>m. set (fst (session_events clk m p s)) \<subseteq> set (sort_events (build_events clk st))"
    if "(k, p) \<in> set (players st)" and "s \<in> set (sessions p)"
    using players_events_reach [OF that, of clk 0]
    by (simp add: build_events_def set_sort_events)
  have playing: "\<exists>m. \<lparr>ev_t = s_start s, ev_type = 1, ev_who = p_name p\<rparr>
                \<in> set (sort_events (build_events clk st))
            \<and> \<lparr>ev_t = clk m, ev_type = - 1, ev_who = p_name p\<rparr>
                \<in> set (sort_events (build_events clk st))"
    if "(k, p) \<in> set (players st)" and "s \<in> set (sessions p)" and "s_end s = None"
      and "\<forall>m. isPlayingNow (clk m) p"
  proof -
    from reach [OF that(1,2)] obtain m where
      m: "set (fst (session_events clk m p s)) \<subseteq> set (sort_events (build_events clk st))" ..
    from that(4) have "isPlayingNow (clk m) p" ..
    from session_events_open_playing [of s clk m p, OF that(3) this] m
    have "\<lparr>ev_t = s_start s, ev_type = 1, ev_who = p_name p\<rparr>
                \<in> set (sort_events (build_events clk st))
            \<and> \<lparr>ev_t = clk (Suc m), ev_type = - 1, ev_who = p_name p\<rparr>
                \<in> set (sort_events (build_events clk st))"
      by simp
    then show ?thesis ..
  qed
  have origin: "\<exists>(k, p) \<in> set (players st). \<exists>s \<in> set (sessions p).
           \<exists>m. e \<in> set (fst (session_events clk m p s))"
    if "e \<in> set (sort_events (build_events clk st))"
    using that players_events_origin [of e clk 0 "players st"]
    by (simp add: build_events_def set_sort_events)
  have mat: "fst (computeOverlaps (\<lambda>_. now) st) =
       fst (computeOverlaps clk'
             (st\<lparr>players := map (\<lambda>(k, p). (k, materialise now p)) (players st)\<rparr>))"
    by (simp add: computeOverlaps_def all_intervals_def build_events_materialise Let_def
        case_prod_beta)
  have frame: "snd (computeOverlaps clk st) = st"
    by (simp add: computeOverlaps_def Let_def case_prod_beta)
  from reach playing origin mat frame show ?thesis
    using session_events_open_not_playing [of s clk n p]
      session_events_open_playing [of s clk n p]
    by blast
qed

theorem open_session_contribution_witness:
  "fst (session_events (\<lambda>n. 600000 + int n) 0
       \<lparr>p_name = ''Zumito Kun'', p_url = [], lastMatchId = Some ''m1'',
        lastMatchAt = Some 500000, sessions = [\<lparr>s_start = 0, s_end = None\<rparr>]\<rparr>
       \<lparr>s_start = 0, s_end = None\<rparr>)
     = [\<lparr>ev_t = 0, ev_type = 1, ev_who = ''Zumito Kun''\<rparr>,
        \<lparr>ev_t = 600001, ev_type = - 1, ev_who = ''Zumito Kun''\<rparr>]
   \<and> fst (session_events (\<lambda>n. 600000 + int n) 4
       \<lparr>p_name = ''Cronoxis'', p_url = [], lastMatchId = Some ''m0'',
        lastMatchAt = Some (- 3000000), sessions = [\<lparr>s_start = - 3000000, s_end = None\<rparr>]\<rparr>
       \<lparr>s_start = - 3000000, s_end = None\<rparr>) = []
   \<and> \<lparr>ev_t = 0, ev_type = 1, ev_who = ''Zumito Kun''\<rparr>
       \<in> set (sort_events (build_events (\<lambda>n. 600000)
     \<lparr>players =
       [(''Zumito Kun'', \<lparr>p_name = ''Zumito Kun'', p_url = [], lastMatchId = Some ''m1'',
        lastMatchAt = Some 500000, sessions = [\<lparr>s_start = 0, s_end = None\<rparr>]\<rparr>),
        (''Lulau22'', \<lparr>p_name = ''Lulau22'', p_url = [], lastMatchId = Some ''m2'',
        lastMatchAt = Some 550000, sessions = [\<lparr>s_start = 60000, s_end = None\<rparr>]\<rparr>),
        (''Cronoxis'', \<lparr>p_name = ''Cronoxis'', p_url = [], lastMatchId = Some ''m0'',
        lastMatchAt = Some (- 3000000), sessions = [\<lparr>s_start = - 3000000, s_end = None\<rparr>]\<rparr>)],
      latestMatch = None, createdAt = 0\<rparr>))
   \<and> \<lparr>ev_t = 600000, ev_type = - 1, ev_who = ''Zumito Kun''\<rparr>
       \<in> set (sort_events (build_events (\<lambda>n. 600000)
     \<lparr>players =
       [(''Zumito Kun'', \<lparr>p_name = ''Zumito Kun'', p_url = [], lastMatchId = Some ''m1'',
        lastMatchAt = Some 500000, sessions = [\<lparr>s_start = 0, s_end = None\<rparr>]\<rparr>),
        (''Lulau22'', \<lparr>p_name = ''Lulau22'', p_url = [], lastMatchId = Some ''m2'',
        lastMatchAt = Some 550000, sessions = [\<lparr>s_start = 60000, s_end = None\<rparr>]\<rparr>),
        (''Cronoxis'', \<lparr>p_name = ''Cronoxis'', p_url = [], lastMatchId = Some ''m0'',
        lastMatchAt = Some (- 3000000), sessions = [\<lparr>s_start = - 3000000, s_end = None\<rparr>]\<rparr>)],
      latestMatch = None, createdAt = 0\<rparr>))
   \<and> sort_events (build_events (\<lambda>n. 600000 + int n)
     \<lparr>players =
       [(''Zumito Kun'', \<lparr>p_name = ''Zumito Kun'', p_url = [], lastMatchId = Some ''m1'',
        lastMatchAt = Some 500000, sessions = [\<lparr>s_start = 0, s_end = None\<rparr>]\<rparr>),
        (''Lulau22'', \<lparr>p_name = ''Lulau22'', p_url = [], lastMatchId = Some ''m2'',
        lastMatchAt = Some 550000, sessions = [\<lparr>s_start = 60000, s_end = None\<rparr>]\<rparr>),
        (''Cronoxis'', \<lparr>p_name = ''Cronoxis'', p_url = [], lastMatchId = Some ''m0'',
        lastMatchAt = Some (- 3000000), sessions = [\<lparr>s_start = - 3000000, s_end = None\<rparr>]\<rparr>)],
      latestMatch = None, createdAt = 0\<rparr>)
     = [\<lparr>ev_t = 0, ev_type = 1, ev_who = ''Zumito Kun''\<rparr>,
      \<lparr>ev_t = 60000, ev_type = 1, ev_who = ''Lulau22''\<rparr>,
      \<lparr>ev_t = 600001, ev_type = - 1, ev_who = ''Zumito Kun''\<rparr>,
      \<lparr>ev_t = 600003, ev_type = - 1, ev_who = ''Lulau22''\<rparr>]
   \<and> intervals (fst (computeOverlaps (\<lambda>n. 600000 + int n)
     \<lparr>players =
       [(''Zumito Kun'', \<lparr>p_name = ''Zumito Kun'', p_url = [], lastMatchId = Some ''m1'',
        lastMatchAt = Some 500000, sessions = [\<lparr>s_start = 0, s_end = None\<rparr>]\<rparr>),
        (''Lulau22'', \<lparr>p_name = ''Lulau22'', p_url = [], lastMatchId = Some ''m2'',
        lastMatchAt = Some 550000, sessions = [\<lparr>s_start = 60000, s_end = None\<rparr>]\<rparr>),
        (''Cronoxis'', \<lparr>p_name = ''Cronoxis'', p_url = [], lastMatchId = Some ''m0'',
        lastMatchAt = Some (- 3000000), sessions = [\<lparr>s_start = - 3000000, s_end = None\<rparr>]\<rparr>)],
      latestMatch = None, createdAt = 0\<rparr>))
     = [\<lparr>iv_start = 60000, iv_end = 600001, durationMs = 540001,
         iv_players = [''Zumito Kun'', ''Lulau22''], iv_count = 2\<rparr>]"
proof -
  have a: "fst (session_events (\<lambda>n. 600000 + int n) 0
       \<lparr>p_name = ''Zumito Kun'', p_url = [], lastMatchId = Some ''m1'',
        lastMatchAt = Some 500000, sessions = [\<lparr>s_start = 0, s_end = None\<rparr>]\<rparr>
       \<lparr>s_start = 0, s_end = None\<rparr>)
     = [\<lparr>ev_t = 0, ev_type = 1, ev_who = ''Zumito Kun''\<rparr>,
        \<lparr>ev_t = 600001, ev_type = - 1, ev_who = ''Zumito Kun''\<rparr>]"
    using open_session_contribution [where s = "\<lparr>s_start = 0, s_end = None\<rparr>"
        and clk = "(\<lambda>n. 600000 + int n)" and n = 0
        and p = "\<lparr>p_name = ''Zumito Kun'', p_url = [], lastMatchId = Some ''m1'',
        lastMatchAt = Some 500000, sessions = [\<lparr>s_start = 0, s_end = None\<rparr>]\<rparr>"]
    by (simp add: isPlayingNow_ms)
  have b: "fst (session_events (\<lambda>n. 600000 + int n) 4
       \<lparr>p_name = ''Cronoxis'', p_url = [], lastMatchId = Some ''m0'',
        lastMatchAt = Some (- 3000000), sessions = [\<lparr>s_start = - 3000000, s_end = None\<rparr>]\<rparr>
       \<lparr>s_start = - 3000000, s_end = None\<rparr>) = []"
    using open_session_contribution [where s = "\<lparr>s_start = - 3000000, s_end = None\<rparr>"
        and clk = "(\<lambda>n. 600000 + int n)" and n = 4
        and p = "\<lparr>p_name = ''Cronoxis'', p_url = [], lastMatchId = Some ''m0'',
        lastMatchAt = Some (- 3000000), sessions = [\<lparr>s_start = - 3000000, s_end = None\<rparr>]\<rparr>"]
    by (simp add: isPlayingNow_ms)
  have c: "\<lparr>ev_t = 0, ev_type = 1, ev_who = ''Zumito Kun''\<rparr>
       \<in> set (sort_events (build_events (\<lambda>n. 600000)
     \<lparr>players =
       [(''Zumito Kun'', \<lparr>p_name = ''Zumito Kun'', p_url = [], lastMatchId = Some ''m1'',
        lastMatchAt = Some 500000, sessions = [\<lparr>s_start = 0, s_end = None\<rparr>]\<rparr>),
        (''Lulau22'', \<lparr>p_name = ''Lulau22'', p_url = [], lastMatchId = Some ''m2'',
        lastMatchAt = Some 550000, sessions = [\<lparr>s_start = 60000, s_end = None\<rparr>]\<rparr>),
        (''Cronoxis'', \<lparr>p_name = ''Cronoxis'', p_url = [], lastMatchId = Some ''m0'',
        lastMatchAt = Some (- 3000000), sessions = [\<lparr>s_start = - 3000000, s_end = None\<rparr>]\<rparr>)],
      latestMatch = None, createdAt = 0\<rparr>))
   \<and> \<lparr>ev_t = 600000, ev_type = - 1, ev_who = ''Zumito Kun''\<rparr>
       \<in> set (sort_events (build_events (\<lambda>n. 600000)
     \<lparr>players =
       [(''Zumito Kun'', \<lparr>p_name = ''Zumito Kun'', p_url = [], lastMatchId = Some ''m1'',
        lastMatchAt = Some 500000, sessions = [\<lparr>s_start = 0, s_end = None\<rparr>]\<rparr>),
        (''Lulau22'', \<lparr>p_name = ''Lulau22'', p_url = [], lastMatchId = Some ''m2'',
        lastMatchAt = Some 550000, sessions = [\<lparr>s_start = 60000, s_end = None\<rparr>]\<rparr>),
        (''Cronoxis'', \<lparr>p_name = ''Cronoxis'', p_url = [], lastMatchId = Some ''m0'',
        lastMatchAt = Some (- 3000000), sessions = [\<lparr>s_start = - 3000000, s_end = None\<rparr>]\<rparr>)],
      latestMatch = None, createdAt = 0\<rparr>))"
    using open_session_contribution [where s = "\<lparr>s_start = 0, s_end = None\<rparr>"
        and clk = "\<lambda>n. 600000" and k = "''Zumito Kun''"
        and p = "\<lparr>p_name = ''Zumito Kun'', p_url = [], lastMatchId = Some ''m1'',
        lastMatchAt = Some 500000, sessions = [\<lparr>s_start = 0, s_end = None\<rparr>]\<rparr>"
        and st = "\<lparr>players =
       [(''Zumito Kun'', \<lparr>p_name = ''Zumito Kun'', p_url = [], lastMatchId = Some ''m1'',
        lastMatchAt = Some 500000, sessions = [\<lparr>s_start = 0, s_end = None\<rparr>]\<rparr>),
        (''Lulau22'', \<lparr>p_name = ''Lulau22'', p_url = [], lastMatchId = Some ''m2'',
        lastMatchAt = Some 550000, sessions = [\<lparr>s_start = 60000, s_end = None\<rparr>]\<rparr>),
        (''Cronoxis'', \<lparr>p_name = ''Cronoxis'', p_url = [], lastMatchId = Some ''m0'',
        lastMatchAt = Some (- 3000000), sessions = [\<lparr>s_start = - 3000000, s_end = None\<rparr>]\<rparr>)],
      latestMatch = None, createdAt = 0\<rparr>"]
    by (simp add: isPlayingNow_ms)
  have d: "sort_events (build_events (\<lambda>n. 600000 + int n)
     \<lparr>players =
       [(''Zumito Kun'', \<lparr>p_name = ''Zumito Kun'', p_url = [], lastMatchId = Some ''m1'',
        lastMatchAt = Some 500000, sessions = [\<lparr>s_start = 0, s_end = None\<rparr>]\<rparr>),
        (''Lulau22'', \<lparr>p_name = ''Lulau22'', p_url = [], lastMatchId = Some ''m2'',
        lastMatchAt = Some 550000, sessions = [\<lparr>s_start = 60000, s_end = None\<rparr>]\<rparr>),
        (''Cronoxis'', \<lparr>p_name = ''Cronoxis'', p_url = [], lastMatchId = Some ''m0'',
        lastMatchAt = Some (- 3000000), sessions = [\<lparr>s_start = - 3000000, s_end = None\<rparr>]\<rparr>)],
      latestMatch = None, createdAt = 0\<rparr>)
     = [\<lparr>ev_t = 0, ev_type = 1, ev_who = ''Zumito Kun''\<rparr>,
      \<lparr>ev_t = 60000, ev_type = 1, ev_who = ''Lulau22''\<rparr>,
      \<lparr>ev_t = 600001, ev_type = - 1, ev_who = ''Zumito Kun''\<rparr>,
      \<lparr>ev_t = 600003, ev_type = - 1, ev_who = ''Lulau22''\<rparr>]"
    by code_simp
  have e: "intervals (fst (computeOverlaps (\<lambda>n. 600000 + int n)
     \<lparr>players =
       [(''Zumito Kun'', \<lparr>p_name = ''Zumito Kun'', p_url = [], lastMatchId = Some ''m1'',
        lastMatchAt = Some 500000, sessions = [\<lparr>s_start = 0, s_end = None\<rparr>]\<rparr>),
        (''Lulau22'', \<lparr>p_name = ''Lulau22'', p_url = [], lastMatchId = Some ''m2'',
        lastMatchAt = Some 550000, sessions = [\<lparr>s_start = 60000, s_end = None\<rparr>]\<rparr>),
        (''Cronoxis'', \<lparr>p_name = ''Cronoxis'', p_url = [], lastMatchId = Some ''m0'',
        lastMatchAt = Some (- 3000000), sessions = [\<lparr>s_start = - 3000000, s_end = None\<rparr>]\<rparr>)],
      latestMatch = None, createdAt = 0\<rparr>))
     = [\<lparr>iv_start = 60000, iv_end = 600001, durationMs = 540001,
         iv_players = [''Zumito Kun'', ''Lulau22''], iv_count = 2\<rparr>]"
    by code_simp
  from a b c d e show ?thesis
    by blast
qed

section \<open>Persistence round trip\<close>

lemma json_session_inverse: "json_session (session_json s) = Some s"
  by (cases "s_end s") (simp_all add: json_session_def session_json_def)

lemma json_sessions_inverse: "those (map json_session (map session_json ss)) = Some ss"
  by (induction ss) (simp_all add: json_session_inverse)

lemma json_player_inverse: "json_player (player_json p) = Some p"
  by (cases "lastMatchId p"; cases "lastMatchAt p")
     (simp_all del: map_map add: json_player_def player_json_def json_sessions_inverse)

lemma json_players_inverse:
  "those (map (\<lambda>(k, v). map_option (\<lambda>p. (k, p)) (json_player v))
       (map (\<lambda>(k, p). (k, player_json p)) ps)) = Some ps"
  by (induction ps) (auto simp: json_player_inverse)

lemma json_latest_inverse: "json_latest (latest_json l) = Some l"
  by (simp add: json_latest_def latest_json_def)

lemma nullable_json_latest_inverse: "nullable json_latest (latest_json l) = Some (Some l)"
  using json_latest_inverse [of l] by (simp add: latest_json_def)

lemma json_state_inverse: "json_state (state_json st) = Some st"
  by (cases "latestMatch st")
     (simp_all del: map_map add: json_state_def state_json_def json_players_inverse
        nullable_json_latest_inverse)

lemma merge_roster_keeps:
  assumes "map_of ps k = Some p"
  shows "\<exists>q. map_of (merge_roster ps r) k = Some q \<and> same_history p q"
  using assms
  by (auto simp: merge_roster_def same_history_def update_conv' map_of_map_entry
      split: option.splits)

lemma foldl_merge_roster_keeps:
  assumes "map_of ps k = Some p"
  shows "\<exists>q. map_of (foldl merge_roster ps rs) k = Some q \<and> same_history p q"
  using assms
proof (induction rs arbitrary: ps p)
  case Nil
  then show ?case by (simp add: same_history_def)
next
  case (Cons r rs)
  from merge_roster_keeps [OF Cons.prems, of r]
  obtain q where q: "map_of (merge_roster ps r) k = Some q" "same_history p q"
    by blast
  from Cons.IH [OF q(1)] obtain q' where
    "map_of (foldl merge_roster (merge_roster ps r) rs) k = Some q'" "same_history q q'"
    by blast
  with q(2) show ?case
    by (auto simp: same_history_def)
qed

text \<open>
  C9, as amended. When writing the data file and reading it back do not fail, saving a
  state and loading it reproduces, for every player the state holds (so for every roster
  player of a state the program built), the same \<open>sessions\<close>, \<open>lastMatchId\<close> and
  \<open>lastMatchAt\<close>: the value read back is the state that was written
  (\<open>json_state_inverse\<close>), and the roster merge of \<open>loadState\<close> only refreshes the URL.
\<close>

theorem save_then_load_roundtrip:
  assumes "\<not> write_fails d" and "\<not> read_fails d"
    and "map_of (players st) k = Some p"
  shows "\<exists>q. map_of (players (loadState now (saveState st d))) k = Some q
           \<and> sessions q = sessions p
           \<and> lastMatchId q = lastMatchId p
           \<and> lastMatchAt q = lastMatchAt p"
  using assms foldl_merge_roster_keeps [OF assms(3), of PLAYERS]
  by (auto simp: loadState_def saveState_def same_history_def json_state_inverse)

theorem save_then_load_roundtrip_witness:
  "map_of (players (run [Observe ''Lulau22'' \<lparr>matchId = ''m1'', atISO = 600000\<rparr>] (defaultState 0))) ''Lulau22''
     = Some \<lparr>p_name = ''Lulau22'',
            p_url = ''https://fortnitetracker.com/profile/all/Lulau22/matches'',
            lastMatchId = Some ''m1'', lastMatchAt = Some 600000,
            sessions = [\<lparr>s_start = 600000, s_end = None\<rparr>]\<rparr>
   \<and> sessions (the (map_of (players (loadState 900000 (saveState
        (run [Observe ''Lulau22'' \<lparr>matchId = ''m1'', atISO = 600000\<rparr>] (defaultState 0))
        \<lparr>d_file = None, read_fails = False, write_fails = False\<rparr>))) ''Lulau22''))
     = [\<lparr>s_start = 600000, s_end = None\<rparr>]
   \<and> lastMatchId (the (map_of (players (loadState 900000 (saveState
        (run [Observe ''Lulau22'' \<lparr>matchId = ''m1'', atISO = 600000\<rparr>] (defaultState 0))
        \<lparr>d_file = None, read_fails = False, write_fails = False\<rparr>))) ''Lulau22'')) = Some ''m1''
   \<and> lastMatchAt (the (map_of (players (loadState 900000 (saveState
        (run [Observe ''Lulau22'' \<lparr>matchId = ''m1'', atISO = 600000\<rparr>] (defaultState 0))
        \<lparr>d_file = None, read_fails = False, write_fails = False\<rparr>))) ''Lulau22'')) = Some 600000"
proof -
  have mp: "map_of (players (run [Observe ''Lulau22'' \<lparr>matchId = ''m1'', atISO = 600000\<rparr>] (defaultState 0))) ''Lulau22''
     = Some \<lparr>p_name = ''Lulau22'',
            p_url = ''https://fortnitetracker.com/profile/all/Lulau22/matches'',
            lastMatchId = Some ''m1'', lastMatchAt = Some 600000,
            sessions = [\<lparr>s_start = 600000, s_end = None\<rparr>]\<rparr>"
    by code_simp
  from save_then_load_roundtrip [OF _ _ mp,
      of "\<lparr>d_file = None, read_fails = False, write_fails = False\<rparr>" 900000]
  obtain q where "map_of (players (loadState 900000 (saveState
        (run [Observe ''Lulau22'' \<lparr>matchId = ''m1'', atISO = 600000\<rparr>] (defaultState 0))
        \<lparr>d_file = None, read_fails = False, write_fails = False\<rparr>))) ''Lulau22'' = Some q"
    and "sessions q = [\<lparr>s_start = 600000, s_end = None\<rparr>]"
    and "lastMatchId q = Some ''m1''" and "lastMatchAt q = Some 600000"
    by auto
  with mp show ?thesis
    by simp
qed

text \<open>
  C9 as the claim words it, for every save followed by a load, fails when the write
  throws: \<open>saveState\<close> logs the error and leaves the file as it was, here absent, and
  \<open>loadState\<close> then returns the default state, in which the player's session is gone.
\<close>

theorem write_failure_counterexample:
  "map_of (players (run [Observe ''Lulau22'' \<lparr>matchId = ''m1'', atISO = 600000\<rparr>] (defaultState 0))) ''Lulau22''
     = Some \<lparr>p_name = ''Lulau22'',
            p_url = ''https://fortnitetracker.com/profile/all/Lulau22/matches'',
            lastMatchId = Some ''m1'', lastMatchAt = Some 600000,
            sessions = [\<lparr>s_start = 600000, s_end = None\<rparr>]\<rparr>
   \<and> map_of (players (loadState 900000 (saveState
        (run [Observe ''Lulau22'' \<lparr>matchId = ''m1'', atISO = 600000\<rparr>] (defaultState 0))
        \<lparr>d_file = None, read_fails = False, write_fails = True\<rparr>))) ''Lulau22''
     = Some \<lparr>p_name = ''Lulau22'',
            p_url = ''https://fortnitetracker.com/profile/all/Lulau22/matches'',
            lastMatchId = None, lastMatchAt = None, sessions = []\<rparr>"
  by code_simp

section \<open>The invariant of the session log\<close>

lemma all_closed_if_not_open:
  "list_all is_closed (butlast ss) \<Longrightarrow> \<not> has_open_session ss \<Longrightarrow> list_all is_closed ss"
  by (cases ss rule: rev_cases) (auto simp: has_open_session_def is_closed_def)

lemma observe_closed_before_last:
  "closed_before_last p \<Longrightarrow> closed_before_last (observe i p)"
  by (auto simp: closed_before_last_def observe_def ensureSessionOnNewMatch_def
      dest: all_closed_if_not_open)

lemma close_inactive_closed_before_last:
  "closed_before_last p \<Longrightarrow> closed_before_last (close_inactive now p)"
  by (auto simp: closed_before_last_def close_inactive_def set_last_end_def
      split: option.splits)

lemma bounded_by_mono: "bounded_by L s \<Longrightarrow> L \<le> L' \<Longrightarrow> bounded_by L' s"
  by (auto simp: bounded_by_def split: option.splits)

lemma observe_player_inv:
  assumes "player_inv p" and "\<forall>L. lastMatchAt p = Some L \<longrightarrow> L \<le> atISO i"
  shows "player_inv (observe i p)"
proof (cases "lastMatchAt p")
  case None
  with assms(1) show ?thesis
    by (simp add: player_inv_def observe_def ensureSessionOnNewMatch_def has_open_session_def
        bounded_by_def)
next
  case (Some L)
  with assms have L: "L \<le> atISO i" and b: "list_all (bounded_by L) (sessions p)"
    and c: "list_all is_closed (butlast (sessions p))" and s: "sorted_wrt before (sessions p)"
    by (simp_all add: player_inv_def)
  from b L have b': "list_all (bounded_by (atISO i)) (sessions p)"
    by (auto simp: list_all_iff intro: bounded_by_mono)
  show ?thesis
  proof (cases "has_open_session (sessions p)")
    case True
    with b' c s show ?thesis
      by (simp add: player_inv_def observe_def ensureSessionOnNewMatch_def)
  next
    case False
    with c have "list_all is_closed (sessions p)"
      by (rule all_closed_if_not_open)
    with b' have "\<forall>a \<in> set (sessions p). before a \<lparr>s_start = atISO i, s_end = None\<rparr>"
      by (auto simp: list_all_iff before_def bounded_by_def is_closed_def split: option.splits)
    with False b' c s \<open>list_all is_closed (sessions p)\<close> show ?thesis
      by (simp add: player_inv_def observe_def ensureSessionOnNewMatch_def sorted_wrt_append
          bounded_by_def)
  qed
qed

lemma set_last_end_inv:
  assumes "ss \<noteq> []" and "sorted_wrt before ss" and "list_all (bounded_by L) ss"
  shows "sorted_wrt before (set_last_end L ss) \<and> list_all (bounded_by L) (set_last_end L ss)"
proof -
  from assms(1) obtain xs x where ss: "ss = xs @ [x]"
    by (cases ss rule: rev_cases) auto
  with assms(2,3) show ?thesis
    by (auto simp: set_last_end_def sorted_wrt_append before_def bounded_by_def
        split: option.splits)
qed

lemma close_inactive_player_inv:
  assumes "player_inv p"
  shows "player_inv (close_inactive now p)"
proof (cases "has_open_session (sessions p)")
  case False
  with assms show ?thesis by (simp add: close_inactive_def)
next
  case True
  then have ne: "sessions p \<noteq> []" by (simp add: has_open_session_def)
  with assms obtain L where L: "lastMatchAt p = Some L"
    by (auto simp: player_inv_def split: option.splits)
  with assms have "sorted_wrt before (sessions p)" "list_all (bounded_by L) (sessions p)"
    "list_all is_closed (butlast (sessions p))"
    by (simp_all add: player_inv_def)
  with set_last_end_inv [OF ne, of L] L True show ?thesis
    by (auto simp: player_inv_def close_inactive_def minutesBetween_def set_last_end_def)
qed

lemma map_entry_pred:
  assumes "\<forall>(k, p) \<in> set xs. P p"
    and "\<And>p. map_of xs k0 = Some p \<Longrightarrow> P p \<Longrightarrow> P (f p)"
  shows "\<forall>(k, p) \<in> set (AList.map_entry k0 f xs). P p"
  using assms
proof (induction xs)
  case Nil
  then show ?case by simp
next
  case (Cons x xs)
  obtain k v where x: "x = (k, v)" by (cases x)
  show ?case
  proof (cases "k = k0")
    case True
    with Cons.prems x show ?thesis by auto
  next
    case False
    with Cons.prems x have "\<forall>(k, p) \<in> set (AList.map_entry k0 f xs). P p"
      by (intro Cons.IH) auto
    with False Cons.prems(1) x show ?thesis by auto
  qed
qed

lemma scan_player_observe:
  "apply_mutation st (Observe nm i) =
     (case map_of (players st) nm of
        None \<Rightarrow> st
      | Some p \<Rightarrow>
          if Some (matchId i) \<noteq> lastMatchId p
          then st\<lparr>players := AList.map_entry nm (observe i) (players st),
                  latestMatch := Some \<lparr>lm_player = nm, lm_matchId = matchId i, lm_at = atISO i\<rparr>\<rparr>
          else st)"
  by (simp add: scan_player_def observe_def [abs_def] split: option.splits)

lemma apply_mutation_closed_before_last:
  assumes "\<forall>(k, p) \<in> set (players st). closed_before_last p"
  shows "\<forall>(k, p) \<in> set (players (apply_mutation st m)). closed_before_last p"
proof (cases m)
  case (Observe nm i)
  from map_entry_pred [of "players st" closed_before_last nm "observe i"] assms
  have "\<forall>(k, p) \<in> set (AList.map_entry nm (observe i) (players st)). closed_before_last p"
    by (simp add: observe_closed_before_last)
  with assms Observe show ?thesis
    by (simp add: scan_player_observe del: apply_mutation.simps split: option.splits)
next
  case (Sweep now)
  with assms show ?thesis
    by (auto simp: closeInactiveSessions_def close_inactive_closed_before_last)
qed

lemma apply_mutation_player_inv:
  assumes "\<forall>(k, p) \<in> set (players st). player_inv p" and "in_order st m"
  shows "\<forall>(k, p) \<in> set (players (apply_mutation st m)). player_inv p"
proof (cases m)
  case (Observe nm i)
  show ?thesis
  proof (cases "map_of (players st) nm")
    case None
    with assms Observe show ?thesis by (simp add: scan_player_observe del: apply_mutation.simps)
  next
    case (Some p)
    show ?thesis
    proof (cases "Some (matchId i) \<noteq> lastMatchId p")
      case False
      with Some assms Observe show ?thesis by (simp add: scan_player_observe del: apply_mutation.simps)
    next
      case True
      with Some assms(2) Observe have "\<forall>L. lastMatchAt p = Some L \<longrightarrow> L \<le> atISO i"
        by (auto split: option.splits)
      with Some have "\<And>q. map_of (players st) nm = Some q \<Longrightarrow> player_inv q \<Longrightarrow> player_inv (observe i q)"
        by (simp add: observe_player_inv)
      from map_entry_pred [of "players st" player_inv nm "observe i", OF assms(1) this]
      have "\<forall>(k, p) \<in> set (AList.map_entry nm (observe i) (players st)). player_inv p"
        by simp
      with Some True Observe show ?thesis
        by (simp add: scan_player_observe del: apply_mutation.simps)
    qed
  qed
next
  case (Sweep now)
  with assms show ?thesis
    by (auto simp: closeInactiveSessions_def close_inactive_player_inv)
qed

lemma run_closed_before_last:
  "\<forall>(k, p) \<in> set (players st). closed_before_last p \<Longrightarrow>
   \<forall>(k, p) \<in> set (players (run ms st)). closed_before_last p"
  unfolding run_def
proof (induction ms arbitrary: st)
  case Nil
  then show ?case by simp
next
  case (Cons m ms)
  from Cons.IH [OF apply_mutation_closed_before_last [OF Cons.prems, of m]]
  show ?case by simp
qed

lemma run_player_inv:
  "\<forall>(k, p) \<in> set (players st). player_inv p \<Longrightarrow> timestamps_in_order st ms \<Longrightarrow>
   \<forall>(k, p) \<in> set (players (run ms st)). player_inv p"
  unfolding run_def
proof (induction ms arbitrary: st)
  case Nil
  then show ?case by simp
next
  case (Cons m ms)
  from Cons.prems(2) have "in_order st m" and "timestamps_in_order (apply_mutation st m) ms"
    by simp_all
  from Cons.IH [OF apply_mutation_player_inv [OF Cons.prems(1) this(1)] this(2)]
  show ?case by simp
qed

lemma defaultState_sessions:
  "\<forall>(k, p) \<in> set (players (defaultState c)). sessions p = [] \<and> lastMatchAt p = None"
  by (simp add: defaultState_def PLAYERS_def default_player_def)

lemma at_most_one_open:
  assumes "list_all is_closed (butlast ss)"
  shows "length (filter (\<lambda>s. s_end s = None) ss) \<le> 1"
proof (cases ss rule: rev_cases)
  case Nil
  then show ?thesis by simp
next
  case (snoc xs x)
  with assms have "filter (\<lambda>s. s_end s = None) xs = []"
    by (auto simp: list_all_iff is_closed_def filter_empty_conv)
  with snoc show ?thesis by simp
qed

lemma sorted_wrt_before_nth:
  assumes "sorted_wrt before ss"
  shows "sorted (map s_start ss)"
    and "\<forall>i j. i < j \<and> j < length ss \<longrightarrow>
           (\<exists>e. s_end (ss ! i) = Some e \<and> e \<le> s_start (ss ! j))"
proof -
  have "sorted_wrt (\<lambda>a b. s_start a \<le> s_start b) ss"
    by (rule sorted_wrt_mono_rel [OF _ assms]) (simp add: before_def)
  then show "sorted (map s_start ss)" by (simp add: sorted_map)
  from assms have "\<forall>i j. i < j \<longrightarrow> j < length ss \<longrightarrow> before (ss ! i) (ss ! j)"
    by (simp add: sorted_wrt_iff_nth_less)
  then show "\<forall>i j. i < j \<and> j < length ss \<longrightarrow>
           (\<exists>e. s_end (ss ! i) = Some e \<and> e \<le> s_start (ss ! j))"
  proof (intro allI impI)
    fix i j
    assume h: "\<forall>i j. i < j \<longrightarrow> j < length ss \<longrightarrow> before (ss ! i) (ss ! j)"
      and "i < j \<and> j < length ss"
    then have "before (ss ! i) (ss ! j)" by blast
    then show "\<exists>e. s_end (ss ! i) = Some e \<and> e \<le> s_start (ss ! j)"
      by (cases "s_end (ss ! i)") (simp_all add: before_def)
  qed
qed

text \<open>
  C2, as amended. After any sequence of observations and inactivity sweeps applied to the
  default state, every session of a player but the last is closed, so at most one session
  has \<open>end == null\<close> and it is the last. If moreover every observation with a new match
  id carries an instant not before the player's stored \<open>lastMatchAt\<close>, the sessions are
  ordered by \<open>start\<close> and pairwise non-overlapping: each session ends no later than any
  later session starts.
\<close>

theorem sessions_invariant:
  assumes "(k, p) \<in> set (players (run ms (defaultState c)))"
  shows "(\<forall>s \<in> set (butlast (sessions p)). s_end s \<noteq> None)
    \<and> length (filter (\<lambda>s. s_end s = None) (sessions p)) \<le> 1
    \<and> (timestamps_in_order (defaultState c) ms \<longrightarrow>
         sorted (map s_start (sessions p))
         \<and> (\<forall>i j. i < j \<and> j < length (sessions p) \<longrightarrow>
               (\<exists>e. s_end (sessions p ! i) = Some e \<and> e \<le> s_start (sessions p ! j))))"
proof -
  have "\<forall>(k, p) \<in> set (players (defaultState c)). closed_before_last p"
    using defaultState_sessions [of c] by (auto simp: closed_before_last_def)
  from run_closed_before_last [OF this, of ms] assms
  have cl: "list_all is_closed (butlast (sessions p))"
    by (auto simp: closed_before_last_def)
  then have 1: "\<forall>s \<in> set (butlast (sessions p)). s_end s \<noteq> None"
    by (simp add: list_all_iff is_closed_def)
  from cl have 2: "length (filter (\<lambda>s. s_end s = None) (sessions p)) \<le> 1"
    by (rule at_most_one_open)
  have 3: "sorted (map s_start (sessions p))
         \<and> (\<forall>i j. i < j \<and> j < length (sessions p) \<longrightarrow>
               (\<exists>e. s_end (sessions p ! i) = Some e \<and> e \<le> s_start (sessions p ! j)))"
    if ord: "timestamps_in_order (defaultState c) ms"
  proof -
    have "\<forall>(k, p) \<in> set (players (defaultState c)). player_inv p"
      using defaultState_sessions [of c] by (auto simp: player_inv_def)
    from run_player_inv [OF this ord] assms have "sorted_wrt before (sessions p)"
      by (auto simp: player_inv_def)
    from sorted_wrt_before_nth [OF this] show ?thesis by blast
  qed
  from 1 2 3 show ?thesis by blast
qed

theorem sessions_invariant_witness:
  "(''Lulau22'',
     \<lparr>p_name = ''Lulau22'',
        p_url = ''https://fortnitetracker.com/profile/all/Lulau22/matches'',
        lastMatchId = Some ''m2'', lastMatchAt = Some 3600000,
        sessions = [\<lparr>s_start = 0, s_end = Some 0\<rparr>, \<lparr>s_start = 3600000, s_end = None\<rparr>]\<rparr>)
     \<in> set (players (run
       [Observe ''Lulau22'' \<lparr>matchId = ''m1'', atISO = 0\<rparr>, Sweep 1860000,
        Observe ''Lulau22'' \<lparr>matchId = ''m2'', atISO = 3600000\<rparr>]
       (defaultState 0)))
   \<and> timestamps_in_order (defaultState 0)
       [Observe ''Lulau22'' \<lparr>matchId = ''m1'', atISO = 0\<rparr>, Sweep 1860000,
        Observe ''Lulau22'' \<lparr>matchId = ''m2'', atISO = 3600000\<rparr>]
   \<and> sorted (map s_start [\<lparr>s_start = 0, s_end = Some 0\<rparr>, \<lparr>s_start = 3600000, s_end = None\<rparr>])
   \<and> length (filter (\<lambda>s. s_end s = None)
        [\<lparr>s_start = 0, s_end = Some 0\<rparr>, \<lparr>s_start = 3600000, s_end = None\<rparr>]) \<le> 1"
proof -
  have mem: "(''Lulau22'',
     \<lparr>p_name = ''Lulau22'',
        p_url = ''https://fortnitetracker.com/profile/all/Lulau22/matches'',
        lastMatchId = Some ''m2'', lastMatchAt = Some 3600000,
        sessions = [\<lparr>s_start = 0, s_end = Some 0\<rparr>, \<lparr>s_start = 3600000, s_end = None\<rparr>]\<rparr>)
     \<in> set (players (run
       [Observe ''Lulau22'' \<lparr>matchId = ''m1'', atISO = 0\<rparr>, Sweep 1860000,
        Observe ''Lulau22'' \<lparr>matchId = ''m2'', atISO = 3600000\<rparr>]
       (defaultState 0)))"
    by code_simp
  have ord: "timestamps_in_order (defaultState 0)
       [Observe ''Lulau22'' \<lparr>matchId = ''m1'', atISO = 0\<rparr>, Sweep 1860000,
        Observe ''Lulau22'' \<lparr>matchId = ''m2'', atISO = 3600000\<rparr>]"
    by code_simp
  from sessions_invariant [OF mem] mem ord show ?thesis
    by simp
qed

text \<open>
  C2 as the claim words it, for every sequence of mutations, fails: a first match at
  01:00, a sweep at 02:00 that closes the session at 01:00, then an observation with a new
  match id whose instant is 00:00 leave a second session that starts before the first.
\<close>

theorem sessions_unordered_counterexample:
  "(''Lulau22'',
     \<lparr>p_name = ''Lulau22'',
        p_url = ''https://fortnitetracker.com/profile/all/Lulau22/matches'',
        lastMatchId = Some ''m0'', lastMatchAt = Some 0,
        sessions = [\<lparr>s_start = 3600000, s_end = Some 3600000\<rparr>, \<lparr>s_start = 0, s_end = None\<rparr>]\<rparr>)
     \<in> set (players (run
       [Observe ''Lulau22'' \<lparr>matchId = ''m1'', atISO = 3600000\<rparr>, Sweep 7200000,
        Observe ''Lulau22'' \<lparr>matchId = ''m0'', atISO = 0\<rparr>]
       (defaultState 0)))
   \<and> \<not> sorted (map s_start (sessions
     \<lparr>p_name = ''Lulau22'',
        p_url = ''https://fortnitetracker.com/profile/all/Lulau22/matches'',
        lastMatchId = Some ''m0'', lastMatchAt = Some 0,
        sessions = [\<lparr>s_start = 3600000, s_end = Some 3600000\<rparr>, \<lparr>s_start = 0, s_end = None\<rparr>]\<rparr>))"
  by code_simp

section \<open>Zero-length sessions at a shared boundary\<close>

text \<open>
  C1. The sorted events have every closing event before every opening event of the same
  instant (\<open>sorted_sort_events\<close>). The conclusion the claim draws from it does not hold
  of the code when the session that ends at the shared instant also starts there. Zumito
  Kun plays one match at 00:20, so the session the sweep closes is \<open>[00:20, 00:20]\<close>;
  Lulau22 plays from 00:20 to 00:40. Zumito Kun's closing event is processed before the
  opening event of the same session, the player stays in the active set, and the sweep
  emits the interval from 00:20 to 00:40 with both players and count 2.
\<close>

theorem zero_length_session_false_overlap:
  "map (\<lambda>(k, p). (k, sessions p))
     (players (run
       [Observe ''Zumito Kun'' \<lparr>matchId = ''m1'', atISO = 1200000\<rparr>,
        Observe ''Lulau22'' \<lparr>matchId = ''m2'', atISO = 1200000\<rparr>,
        Sweep 1260000,
        Observe ''Lulau22'' \<lparr>matchId = ''m3'', atISO = 2400000\<rparr>,
        Sweep 2460000,
        Sweep 4260000]
       (defaultState 0)))
   = [(''Zumito Kun'', [\<lparr>s_start = 1200000, s_end = Some 1200000\<rparr>]),
      (''Lulau22'', [\<lparr>s_start = 1200000, s_end = Some 2400000\<rparr>]),
      (''Antocar69 TTV'', []),
      (''Cronoxis'', [])]
   \<and> sort_events (build_events (\<lambda>n. 4260000) (run
       [Observe ''Zumito Kun'' \<lparr>matchId = ''m1'', atISO = 1200000\<rparr>,
        Observe ''Lulau22'' \<lparr>matchId = ''m2'', atISO = 1200000\<rparr>,
        Sweep 1260000,
        Observe ''Lulau22'' \<lparr>matchId = ''m3'', atISO = 2400000\<rparr>,
        Sweep 2460000,
        Sweep 4260000]
       (defaultState 0)))
   = [\<lparr>ev_t = 1200000, ev_type = - 1, ev_who = ''Zumito Kun''\<rparr>,
      \<lparr>ev_t = 1200000, ev_type = 1, ev_who = ''Zumito Kun''\<rparr>,
      \<lparr>ev_t = 1200000, ev_type = 1, ev_who = ''Lulau22''\<rparr>,
      \<lparr>ev_t = 2400000, ev_type = - 1, ev_who = ''Lulau22''\<rparr>]
   \<and> intervals (fst (computeOverlaps (\<lambda>n. 4260000) (run
       [Observe ''Zumito Kun'' \<lparr>matchId = ''m1'', atISO = 1200000\<rparr>,
        Observe ''Lulau22'' \<lparr>matchId = ''m2'', atISO = 1200000\<rparr>,
        Sweep 1260000,
        Observe ''Lulau22'' \<lparr>matchId = ''m3'', atISO = 2400000\<rparr>,
        Sweep 2460000,
        Sweep 4260000]
       (defaultState 0))))
   = [\<lparr>iv_start = 1200000, iv_end = 2400000, durationMs = 1200000,
       iv_players = [''Zumito Kun'', ''Lulau22''], iv_count = 2\<rparr>]"
  by code_simp

end
